theory Spec2Isabelle
  imports Complex_Main
begin

section \<open>The polynomial parent class of Effective Quadratures (equadratures/poly.py)\<close>

text \<open>
  The class \<^verbatim>\<open>Poly\<close> assembles multivariate orthogonal polynomials, their gradients
  and quadrature rules from a list of \<^verbatim>\<open>Parameter\<close> objects and a \<^verbatim>\<open>Basis\<close>.
  Floating-point numbers are idealised as \<^typ>\<open>real\<close>, with one exception: the weights
  of the quasi-random rule are the binary64 numbers that the division computes, since
  the specification speaks of their exact sum. Numpy arrays of two axes carry their
  shape with them, so that an array with no rows still has a column count.
\<close>

subsection \<open>Errors and arrays\<close>

datatype error = ValueError | IndexError | TypeError | AttributeError

record 'a ndarray =
  nrows :: nat
  ncols :: nat
  data :: "'a list list"

definition wf_array :: "'a ndarray \<Rightarrow> bool" where
  "wf_array A \<longleftrightarrow> length (data A) = nrows A \<and> list_all (\<lambda>r. length r = ncols A) (data A)"

text \<open>A loop whose body may raise: the first error ends it.\<close>

fun fold_err :: "('a \<Rightarrow> 's \<Rightarrow> error + 's) \<Rightarrow> 'a list \<Rightarrow> 's \<Rightarrow> error + 's" where
  "fold_err f [] s = Inr s"
| "fold_err f (x # xs) s = (case f x s of Inl e \<Rightarrow> Inl e | Inr s' \<Rightarrow> fold_err f xs s')"

subsection \<open>The collaborators: Parameter and Basis\<close>

text \<open>
  A \<^verbatim>\<open>Parameter\<close> exposes its distribution kind, its bounds and its order, and three
  capabilities whose code is not part of this file: the univariate orthogonal polynomial
  and its derivative (\<open>ortho\<close>, \<open>dortho\<close>: degree, then point), the local quadrature
  rule (\<open>localQuadrature\<close>: nodes and weights for a requested order) and the sampler
  (\<open>getSamples\<close>). They are fields of the record, so every statement below holds for
  any implementation of them.
\<close>

record parameter =
  param_type :: string
  lower :: real
  upper :: real
  order :: nat
  ortho :: "nat \<Rightarrow> real \<Rightarrow> real"
  dortho :: "nat \<Rightarrow> real \<Rightarrow> real"
  localQuadrature :: "nat \<Rightarrow> real list \<times> real list"
  getSamples :: "nat \<Rightarrow> real list"

text \<open>
  Modelled from the spec: \<^verbatim>\<open>Parameter._getOrthoPoly(points, order)\<close> is missing from the
  sources. The specification gives it as
  \<^verbatim>\<open>orthoPoly(points, maxDegree) -> (values[0..maxDegree], derivatives[0..maxDegree])\<close>:
  row \<open>k\<close> of the first table holds the degree-\<open>k\<close> values at the points, row \<open>k\<close> of the
  second the derivatives. Called without an order it uses the parameter's own.
\<close>

definition getOrthoPoly ::
  "parameter \<Rightarrow> real list \<Rightarrow> nat option \<Rightarrow> real list list \<times> real list list" where
  "getOrthoPoly P points ord =
     (let n = (case ord of None \<Rightarrow> order P | Some k \<Rightarrow> k)
      in (map (\<lambda>deg. map (ortho P deg) points) [0..<Suc n],
          map (\<lambda>deg. map (dortho P deg) points) [0..<Suc n]))"

text \<open>
  The code of \<^verbatim>\<open>Basis\<close> is not part of this file either. The core reads two of its
  attributes, the multi-index table \<^verbatim>\<open>elements\<close> and the vector \<^verbatim>\<open>orders\<close>, and calls
  one method, \<^verbatim>\<open>setOrders\<close>. The method is a field of the record: from the orders it is
  handed and the two attributes as they are, it gives the two attributes as they are
  after the call. Nothing is assumed about it.
\<close>

record Basis =
  elements :: "nat ndarray"
  orders :: "nat list"
  setOrders :: "nat list \<Rightarrow> nat ndarray \<times> nat list \<Rightarrow> nat ndarray \<times> nat list"

text \<open>The call \<^verbatim>\<open>basis.setOrders(os)\<close>, which works on the object it is called on.\<close>

definition call_setOrders :: "Basis \<Rightarrow> nat list \<Rightarrow> Basis" where
  "call_setOrders b os =
     (case setOrders b os (elements b, orders b) of
        (els, ords) \<Rightarrow> b\<lparr>elements := els, orders := ords\<rparr>)"

subsection \<open>The core object\<close>

text \<open>
  An attribute that has not been assigned yet (\<^verbatim>\<open>coefficients\<close>, \<^verbatim>\<open>designMatrix\<close>)
  is \<open>None\<close>; reading it raises \<^verbatim>\<open>AttributeError\<close>.
\<close>

record Poly =
  parameters :: "parameter list"
  basis :: Basis
  dimensions :: nat
  orders :: "nat list"
  coefficients :: "real ndarray option"
  designMatrix :: "real ndarray option"

definition init :: "parameter list \<Rightarrow> Basis \<Rightarrow> Poly" where
  "init ps b =
     (let d = length ps;
          os = foldl (\<lambda>acc i. acc @ [order (ps ! i)]) [] [0..<d]
      in \<lparr>parameters = ps, basis = call_setOrders b os, dimensions = d, orders = os,
          coefficients = None, designMatrix = None\<rparr>)"

definition setCoefficients :: "Poly \<Rightarrow> real ndarray \<Rightarrow> Poly" where
  "setCoefficients self c = self\<lparr>coefficients := Some c\<rparr>"

definition setDesignMatrix :: "Poly \<Rightarrow> real ndarray \<Rightarrow> Poly" where
  "setDesignMatrix self m = self\<lparr>designMatrix := Some m\<rparr>"


subsection \<open>Array primitives\<close>

text \<open>\<^verbatim>\<open>A[:,i]\<close>: an index beyond the last column raises.\<close>

definition column :: "'a ndarray \<Rightarrow> nat \<Rightarrow> error + 'a list" where
  "column A i = (if i < ncols A then Inr (map (\<lambda>r. r ! i) (data A)) else Inl IndexError)"

text \<open>\<^verbatim>\<open>np.max\<close> has no value on an array without elements.\<close>

definition np_max :: "nat list \<Rightarrow> error + nat" where
  "np_max xs = (if xs = [] then Inl ValueError else Inr (foldr max xs 0))"

definition get_entry :: "'a ndarray \<Rightarrow> nat \<Rightarrow> nat \<Rightarrow> 'a" where
  "get_entry A j i = data A ! j ! i"

definition set_entry :: "'a ndarray \<Rightarrow> nat \<Rightarrow> nat \<Rightarrow> 'a \<Rightarrow> 'a ndarray" where
  "set_entry A j i v = A\<lparr>data := (data A)[j := (data A ! j)[i := v]]\<rparr>"

text \<open>Pointwise product of two rows of equal length.\<close>

definition vmul :: "real list \<Rightarrow> real list \<Rightarrow> real list" where
  "vmul xs ys = map2 (*) xs ys"

subsection \<open>scaleInputs\<close>

text \<open>
  The body of the two loops, at column \<open>i\<close> and row \<open>j\<close>. Only the two branches index
  the array, so a column that does not exist raises in them alone.
\<close>

definition scaleInputs_body :: "Poly \<Rightarrow> nat \<Rightarrow> nat \<Rightarrow> real ndarray \<Rightarrow> error + real ndarray" where
  "scaleInputs_body self i j points =
     (if i < length (parameters self) then
        (let P = parameters self ! i in
         if param_type P = ''Uniform'' then
           (if i < ncols points then
              Inr (set_entry points j i
                     (2 * ((get_entry points j i - lower P) / (upper P - lower P)) - 1))
            else Inl IndexError)
         else if param_type P = ''Beta'' then
           (if i < ncols points then
              Inr (set_entry points j i
                     ((get_entry points j i - lower P) / (upper P - lower P)))
            else Inl IndexError)
         else Inr points)
      else Inl IndexError)"

definition scaleInputs :: "Poly \<Rightarrow> real ndarray \<Rightarrow> error + real ndarray" where
  "scaleInputs self x_points_scaled =
     (let rows = nrows x_points_scaled;
          points = x_points_scaled
      in fold_err (\<lambda>i. fold_err (\<lambda>j. scaleInputs_body self i j) [0..<rows])
           [0..<dimensions self] points)"

subsection \<open>getPolynomial and getPolynomialGradient\<close>

text \<open>
  The dictionaries \<^verbatim>\<open>p\<close> and \<^verbatim>\<open>dp\<close> receive the keys \<open>0, 1, \<dots>\<close> in this order, so
  they are one list of pairs of tables; \<open>extra\<close> is what the caller adds to the column
  maximum (nothing for the values, one for the gradient). The three lookups of the loop
  body raise in the order in which Python evaluates them. The test
  \<^verbatim>\<open>len(stackOfPoints.shape) == 1\<close> inside the loop never holds: the shape has been
  unpacked into two values before.
\<close>

definition ortho_tables ::
  "Poly \<Rightarrow> nat ndarray \<Rightarrow> real ndarray \<Rightarrow> nat \<Rightarrow> error + (real list list \<times> real list list) list" where
  "ortho_tables self B stackOfPoints extra =
     fold_err (\<lambda>i p.
        if i < length (parameters self) then
          (case column stackOfPoints i of
             Inl e \<Rightarrow> Inl e
           | Inr xs \<Rightarrow>
               (case column B i of
                  Inl e \<Rightarrow> Inl e
                | Inr degs \<Rightarrow>
                    (case np_max degs of
                       Inl e \<Rightarrow> Inl e
                     | Inr mx \<Rightarrow> Inr (p @ [getOrthoPoly (parameters self ! i) xs (Some (mx + extra))]))))
        else Inl IndexError) [0..<ncols B] []"

text \<open>
  One row of the result: \<open>sel k\<close> picks the table of dimension \<open>k\<close>. The row and
  \<^verbatim>\<open>temp\<close> are both state of the loop over \<open>k\<close>; without a dimension the row keeps its
  zeros.
\<close>

definition product_row ::
  "(nat \<Rightarrow> real list list) \<Rightarrow> nat list \<Rightarrow> nat \<Rightarrow> nat \<Rightarrow> real list" where
  "product_row sel brow dims no_of_points =
     fst (foldl (\<lambda>(row, temp) k. let r = vmul (sel k ! (brow ! k)) temp in (r, r))
            (replicate no_of_points 0, replicate no_of_points 1) [0..<dims])"

definition product_matrix ::
  "(nat \<Rightarrow> real list list) \<Rightarrow> nat ndarray \<Rightarrow> nat \<Rightarrow> real ndarray" where
  "product_matrix sel B no_of_points =
     \<lparr>nrows = nrows B, ncols = no_of_points,
      data = fold (\<lambda>i polynomial.
                     polynomial[i := product_row sel (data B ! i) (ncols B) no_of_points])
               [0..<nrows B] (replicate (nrows B) (replicate no_of_points 0))\<rparr>"

definition getPolynomial :: "Poly \<Rightarrow> real ndarray \<Rightarrow> error + real ndarray" where
  "getPolynomial self stackOfPoints =
     (let B = elements (basis self);
          no_of_points = nrows stackOfPoints
      in if ncols B = 1 then
           (if 0 < length (parameters self) then
              (case np_max (concat (data B)) of
                 Inl e \<Rightarrow> Inl e
               | Inr mx \<Rightarrow>
                   (let pts = concat (data stackOfPoints);
                        poly = fst (getOrthoPoly (parameters self ! 0) pts (Some mx))
                    in Inr \<lparr>nrows = Suc mx, ncols = length pts, data = poly\<rparr>))
            else Inl IndexError)
         else
           (case ortho_tables self B stackOfPoints 0 of
              Inl e \<Rightarrow> Inl e
            | Inr p \<Rightarrow> Inr (product_matrix (\<lambda>k. fst (p ! k)) B no_of_points)))"

text \<open>
  The univariate shortcut returns one table, the general path a list with one matrix
  per direction.
\<close>

datatype grad_result = Univariate "real ndarray" | Directions "real ndarray list"

definition getPolynomialGradient :: "Poly \<Rightarrow> real ndarray \<Rightarrow> error + grad_result" where
  "getPolynomialGradient self stackOfPoints =
     (let B = elements (basis self);
          no_of_points = nrows stackOfPoints
      in if ncols B = 1 then
           (if 0 < length (parameters self) then
              (let P = parameters self ! 0;
                   pts = concat (data stackOfPoints);
                   poly = fst (getOrthoPoly P pts None)
               in Inr (Univariate \<lparr>nrows = Suc (order P), ncols = length pts, data = poly\<rparr>))
            else Inl IndexError)
         else
           (case ortho_tables self B stackOfPoints 1 of
              Inl e \<Rightarrow> Inl e
            | Inr p \<Rightarrow>
                Inr (Directions
                  (foldl (\<lambda>R v. R @ [product_matrix
                                        (\<lambda>k. if k = v then snd (p ! k) else fst (p ! k))
                                        B no_of_points])
                     [] [0..<ncols B]))))"

subsection \<open>getTensorQuadratureRule\<close>

text \<open>\<^verbatim>\<open>np.kron\<close> on two vectors and on two arrays of two axes.\<close>

definition kron_vec :: "real list \<Rightarrow> real list \<Rightarrow> real list" where
  "kron_vec a b = concat (map (\<lambda>x. map (\<lambda>y. x * y) b) a)"

definition kron :: "real ndarray \<Rightarrow> real ndarray \<Rightarrow> real ndarray" where
  "kron A B =
     \<lparr>nrows = nrows A * nrows B, ncols = ncols A * ncols B,
      data = concat (map (\<lambda>ra. map (\<lambda>rb. kron_vec ra rb) (data B)) (data A))\<rparr>"

definition ones :: "nat \<Rightarrow> nat \<Rightarrow> real ndarray" where
  "ones r c = \<lparr>nrows = r, ncols = c, data = replicate r (replicate c 1)\<rparr>"

definition zeros :: "nat \<Rightarrow> nat \<Rightarrow> real ndarray" where
  "zeros r c = \<lparr>nrows = r, ncols = c, data = replicate r (replicate c 0)\<rparr>"

text \<open>The nodes of a local rule arrive as an array with one column.\<close>

definition column_vector :: "real list \<Rightarrow> real ndarray" where
  "column_vector xs = \<lparr>nrows = length xs, ncols = 1, data = map (\<lambda>x. [x]) xs\<rparr>"

text \<open>\<^verbatim>\<open>np.concatenate((A, B), axis = 1)\<close> needs as many rows in both.\<close>

definition concatenate_axis1 :: "real ndarray \<Rightarrow> real ndarray \<Rightarrow> error + real ndarray" where
  "concatenate_axis1 A B =
     (if nrows A = nrows B then
        Inr \<lparr>nrows = nrows A, ncols = ncols A + ncols B, data = map2 (@) (data A) (data B)\<rparr>
      else Inl ValueError)"

text \<open>\<^verbatim>\<open>pp[:,1::]\<close>.\<close>

definition drop_first_column :: "real ndarray \<Rightarrow> real ndarray" where
  "drop_first_column A = \<lparr>nrows = nrows A, ncols = ncols A - 1, data = map tl (data A)\<rparr>"

text \<open>
  One pass of the loop over the dimensions. \<^verbatim>\<open>pp\<close> starts as the list \<^verbatim>\<open>[1.0]\<close>, which
  \<^verbatim>\<open>np.kron\<close> reads as an array of one row and one column.
\<close>

definition tensor_step ::
  "Poly \<Rightarrow> nat list \<Rightarrow> nat \<Rightarrow> real ndarray \<times> real list \<Rightarrow> error + real ndarray \<times> real list" where
  "tensor_step self ords u st =
     (case st of (pp, ww) \<Rightarrow>
        if u < length (parameters self) then
          (if u < length ords then
             (case localQuadrature (parameters self ! u) (ords ! u + 1) of
                (local_points, local_weights) \<Rightarrow>
                  (let ww' = kron_vec ww local_weights;
                       dummy_vec = ones (length local_points) 1;
                       dummy_vec2 = ones (nrows pp) 1;
                       left_side = kron pp dummy_vec;
                       right_side = kron dummy_vec2 (column_vector local_points)
                   in (case concatenate_axis1 left_side right_side of
                         Inl e \<Rightarrow> Inl e
                       | Inr pp' \<Rightarrow> Inr (pp', ww'))))
           else Inl IndexError)
        else Inl IndexError)"

text \<open>
  Without a dimension \<^verbatim>\<open>pp\<close> is still a Python list when it is sliced with
  \<^verbatim>\<open>pp[:,1::]\<close>, which raises \<^verbatim>\<open>TypeError\<close>.
\<close>

definition getTensorQuadratureRule ::
  "Poly \<Rightarrow> nat list option \<Rightarrow> error + real ndarray \<times> real list" where
  "getTensorQuadratureRule self ords_arg =
     (let ords = (case ords_arg of None \<Rightarrow> Poly.orders self | Some os \<Rightarrow> os)
      in case fold_err (tensor_step self ords) [0..<dimensions self]
                (\<lparr>nrows = 1, ncols = 1, data = [[1]]\<rparr>, [1]) of
           Inl e \<Rightarrow> Inl e
         | Inr (pp, ww) \<Rightarrow>
             if dimensions self = 0 then Inl TypeError
             else Inr (drop_first_column pp, ww))"

subsection \<open>getQuadratureRule\<close>

text \<open>\<^verbatim>\<open>str.lower\<close> on ASCII text.\<close>

definition lower_char :: "char \<Rightarrow> char" where
  "lower_char c =
     (let n = (of_char c :: nat) in if 65 \<le> n \<and> n \<le> 90 then char_of (n + 32) else c)"

definition str_lower :: "string \<Rightarrow> string" where
  "str_lower s = map lower_char s"

text \<open>\<^verbatim>\<open>p[:,i] = v\<close>, where \<open>v\<close> has one entry for each row.\<close>

definition set_column :: "real ndarray \<Rightarrow> nat \<Rightarrow> real list \<Rightarrow> real ndarray" where
  "set_column A i v = A\<lparr>data := map2 (\<lambda>row x. row[i := x]) (data A) v\<rparr>"

definition default_number_of_points :: nat where
  "default_number_of_points = 20000"

text \<open>
  A binary64 operation returns the exact result rounded to the nearest number with 53
  significant bits, a tie going to the even one. The definition is the rounding of a
  number in the normal range, where neither overflow nor subnormal numbers play a part:
  \<open>e\<close> is the exponent of \<open>x\<close>, the integer with \<open>2 ^ e \<le> |x| < 2 ^ (e + 1)\<close>.
\<close>

definition round_half_even :: "real \<Rightarrow> int" where
  "round_half_even x =
     (let f = \<lfloor>x\<rfloor>; r = x - of_int f
      in if r < 1 / 2 then f else if 1 / 2 < r then f + 1 else if even f then f else f + 1)"

definition binary64_round :: "real \<Rightarrow> real" where
  "binary64_round x =
     (if x = 0 then 0
      else (let e = \<lfloor>log 2 \<bar>x\<bar>\<rfloor>
            in sgn x * of_int (round_half_even (\<bar>x\<bar> * 2 powr (52 - of_int e)))
                 * 2 powr (of_int e - 52)))"

text \<open>
  The quasi-random branch. The weights are \<^verbatim>\<open>1.0/float(N) * np.ones(N)\<close>: one rounded
  division, and a rounded product with \<open>1\<close> for each entry. \<^verbatim>\<open>reshape\<close> raises when the
  sampler did not hand over exactly the requested number of samples.
\<close>

definition qmc_rule :: "Poly \<Rightarrow> error + real ndarray \<times> real list" where
  "qmc_rule self =
     (let N = default_number_of_points;
          w = map (\<lambda>x. binary64_round (binary64_round (1 / real N) * x)) (replicate N 1)
      in case fold_err (\<lambda>i p.
                 if i < length (parameters self) then
                   (let s = getSamples (parameters self ! i) N
                    in if length s = N then Inr (set_column p i s) else Inl ValueError)
                 else Inl IndexError) [0..<dimensions self] (zeros N (dimensions self)) of
           Inl e \<Rightarrow> Inl e
         | Inr p \<Rightarrow> Inr (p, w))"

text \<open>
  The result \<open>Inr None\<close> is Python's \<^verbatim>\<open>None\<close>, returned when the function body ends
  without a \<^verbatim>\<open>return\<close>. With eight dimensions and no option, \<^verbatim>\<open>options\<close> stays
  \<^verbatim>\<open>None\<close> and \<^verbatim>\<open>options.lower()\<close> raises \<^verbatim>\<open>AttributeError\<close>.
\<close>

definition getQuadratureRule ::
  "Poly \<Rightarrow> string option \<Rightarrow> error + (real ndarray \<times> real list) option" where
  "getQuadratureRule self options_arg =
     (let options =
            (case options_arg of
               None \<Rightarrow>
                 if dimensions self > 8 then Some ''qmc''
                 else if dimensions self < 8 then Some ''tensor grid''
                 else None
             | Some s \<Rightarrow> Some s)
      in case options of
           None \<Rightarrow> Inl AttributeError
         | Some s \<Rightarrow>
             if str_lower s = ''qmc'' then
               (case qmc_rule self of Inl e \<Rightarrow> Inl e | Inr r \<Rightarrow> Inr (Some r))
             else if str_lower s = ''tensor grid'' then
               (case getTensorQuadratureRule self
                       (Some (map (\<lambda>i. 2 * i) (Basis.orders (basis self)))) of
                  Inl e \<Rightarrow> Inl e
                | Inr r \<Rightarrow> Inr (Some r))
             else Inr None)"

subsection \<open>evaluatePolyFit and evaluatePolyGradFit\<close>







subsection \<open>Example objects\<close>

text \<open>
  The scenario of the specification: two Uniform parameters of order 2 on \<open>[-1, 1]\<close>,
  whose polynomials of degree 0, 1 and 2 take the values 1, 0 and -1/2 at the origin, and
  the total-order basis of six terms.
\<close>

definition legendre :: "nat \<Rightarrow> real \<Rightarrow> real" where
  "legendre k x = (if k = 0 then 1 else if k = 1 then x else if k = 2 then (3 * x * x - 1) / 2 else 0)"

definition dlegendre :: "nat \<Rightarrow> real \<Rightarrow> real" where
  "dlegendre k x = (if k = 0 then 0 else if k = 1 then 1 else if k = 2 then 3 * x else 0)"

definition uniform_example :: parameter where
  "uniform_example =
     \<lparr>param_type = ''Uniform'', lower = - 1, upper = 1, order = 2,
      ortho = legendre, dortho = dlegendre,
      localQuadrature = (\<lambda>n. (map real [0..<n], replicate n (1 / real n))),
      getSamples = (\<lambda>m. replicate m 0)\<rparr>"

text \<open>
  The example Bases answer \<^verbatim>\<open>setOrders\<close> by storing the orders and keeping their
  table.
\<close>

definition store_orders :: "nat list \<Rightarrow> nat ndarray \<times> nat list \<Rightarrow> nat ndarray \<times> nat list" where
  "store_orders os st = (fst st, os)"

definition total_order_basis :: Basis where
  "total_order_basis =
     \<lparr>elements = \<lparr>nrows = 6, ncols = 2, data = [[0, 0], [1, 0], [0, 1], [2, 0], [1, 1], [0, 2]]\<rparr>,
      orders = [], setOrders = store_orders\<rparr>"

definition empty_basis :: Basis where
  "empty_basis =
     \<lparr>elements = \<lparr>nrows = 0, ncols = 2, data = []\<rparr>, orders = [], setOrders = store_orders\<rparr>"

definition origin :: "real ndarray" where
  "origin = \<lparr>nrows = 1, ncols = 2, data = [[0, 0]]\<rparr>"

definition sample_point :: "real ndarray" where
  "sample_point = \<lparr>nrows = 1, ncols = 2, data = [[1, 1 / 2]]\<rparr>"

definition univariate_basis :: Basis where
  "univariate_basis =
     \<lparr>elements = \<lparr>nrows = 3, ncols = 1, data = [[0], [1], [2]]\<rparr>, orders = [],
      setOrders = store_orders\<rparr>"

definition half_point :: "real ndarray" where
  "half_point = \<lparr>nrows = 1, ncols = 1, data = [[1 / 2]]\<rparr>"

text \<open>
  The column transform in the words of the specification: the Uniform and the Beta map,
  and the identity for every other distribution kind.
\<close>

definition canonical_value :: "parameter \<Rightarrow> real \<Rightarrow> real" where
  "canonical_value P x =
     (if param_type P = ''Uniform'' then 2 * (x - lower P) / (upper P - lower P) - 1
      else if param_type P = ''Beta'' then (x - lower P) / (upper P - lower P)
      else x)"

definition physical_points :: "real ndarray" where
  "physical_points = \<lparr>nrows = 2, ncols = 3, data = [[0, 1, 7], [4, 3, 9]]\<rparr>"

definition mixed_parameters :: "parameter list" where
  "mixed_parameters =
     [uniform_example\<lparr>lower := 0, upper := 4\<rparr>,
      uniform_example\<lparr>param_type := ''Beta'', lower := 1, upper := 3\<rparr>,
      uniform_example\<lparr>param_type := ''Gaussian''\<rparr>]"

section \<open>Verification\<close>

subsection \<open>Loops\<close>

lemma fold_err_append:
  "fold_err f (xs @ ys) s = (case fold_err f xs s of Inl e \<Rightarrow> Inl e | Inr s' \<Rightarrow> fold_err f ys s')"
  by (induction xs arbitrary: s) (auto split: sum.splits)

lemma fold_err_upt_inv:
  assumes base: "I 0 s0"
    and step: "\<And>i s. i < n \<Longrightarrow> I i s \<Longrightarrow> \<exists>s'. f i s = Inr s' \<and> I (Suc i) s'"
  shows "\<exists>s'. fold_err f [0..<n] s0 = Inr s' \<and> I n s'"
proof -
  have "k \<le> n \<Longrightarrow> \<exists>s'. fold_err f [0..<k] s0 = Inr s' \<and> I k s'" for k
  proof (induction k)
    case 0
    show ?case using base by simp
  next
    case (Suc k)
    then obtain s where s: "fold_err f [0..<k] s0 = Inr s" "I k s" by auto
    from Suc.prems have "k < n" by simp
    from step [OF this s(2)] obtain s' where "f k s = Inr s'" "I (Suc k) s'" by auto
    with s show ?case by (simp add: fold_err_append)
  qed
  then show ?thesis by simp
qed

lemma fold_upt_inv:
  assumes base: "I 0 s0"
    and step: "\<And>i s. i < n \<Longrightarrow> I i s \<Longrightarrow> I (Suc i) (f i s)"
  shows "I n (fold f [0..<n] s0)"
proof -
  have "k \<le> n \<Longrightarrow> I k (fold f [0..<k] s0)" for k
    by (induction k) (use base step in auto)
  then show ?thesis by simp
qed

lemma foldl_upt_inv:
  assumes base: "I 0 s0"
    and step: "\<And>i s. i < n \<Longrightarrow> I i s \<Longrightarrow> I (Suc i) (f s i)"
  shows "I n (foldl f s0 [0..<n])"
proof -
  have "k \<le> n \<Longrightarrow> I k (foldl f s0 [0..<k])" for k
    by (induction k) (use base step in auto)
  then show ?thesis by simp
qed

lemma foldr_max_ge: "x \<in> set xs \<Longrightarrow> x \<le> foldr max xs (0::nat)"
  by (induction xs) auto

lemma map2_map_map: "map2 f (map g xs) (map h xs) = map (\<lambda>x. f (g x) (h x)) xs"
  by (induction xs) auto

lemma fold_update_upt:
  assumes "length xs = m"
  shows "fold (\<lambda>i ys. ys[i := g i]) [0..<m] xs = map g [0..<m]"
proof -
  have "fold (\<lambda>i ys. ys[i := g i]) [0..<m] xs = map g [0..<m] @ drop m xs"
  proof (rule fold_upt_inv [where I = "\<lambda>k ys. ys = map g [0..<k] @ drop k xs"])
    show "xs = map g [0..<0] @ drop 0 xs" by simp
  next
    fix i ys
    assume i: "i < m" and ys: "ys = map g [0..<i] @ drop i xs"
    from i assms have "drop i xs = xs ! i # drop (Suc i) xs"
      by (simp add: Cons_nth_drop_Suc)
    with ys show "ys[i := g i] = map g [0..<Suc i] @ drop (Suc i) xs"
      by (simp add: list_update_append)
  qed
  with assms show ?thesis by simp
qed

lemma ortho_tables_ok:
  assumes ps: "ncols B \<le> length (parameters self)"
    and cols: "ncols B \<le> ncols pts"
    and rows: "data B \<noteq> []"
  shows "ortho_tables self B pts extra =
           Inr (map (\<lambda>i. getOrthoPoly (parameters self ! i) (map (\<lambda>r. r ! i) (data pts))
                            (Some (foldr max (map (\<lambda>r. r ! i) (data B)) 0 + extra)))
                  [0..<ncols B])"
proof -
  let ?t = "\<lambda>i. getOrthoPoly (parameters self ! i) (map (\<lambda>r. r ! i) (data pts))
                   (Some (foldr max (map (\<lambda>r. r ! i) (data B)) 0 + extra))"
  have "\<exists>p. ortho_tables self B pts extra = Inr p \<and> p = map ?t [0..<ncols B]"
    unfolding ortho_tables_def
  proof (rule fold_err_upt_inv [where I = "\<lambda>k p. p = map ?t [0..<k]"])
    show "[] = map ?t [0..<0]" by simp
  next
    fix i p
    assume "i < ncols B" and "p = map ?t [0..<i]"
    with ps cols rows
    show "\<exists>s'. (if i < length (parameters self) then
                  (case column pts i of
                     Inl e \<Rightarrow> Inl e
                   | Inr xs \<Rightarrow>
                       (case column B i of
                          Inl e \<Rightarrow> Inl e
                        | Inr degs \<Rightarrow>
                            (case np_max degs of
                               Inl e \<Rightarrow> Inl e
                             | Inr mx \<Rightarrow> Inr (p @ [getOrthoPoly (parameters self ! i) xs (Some (mx + extra))]))))
                else Inl IndexError) = Inr s' \<and> s' = map ?t [0..<Suc i]"
      by (simp add: column_def np_max_def)
  qed
  then show ?thesis by simp
qed

lemma product_row_eq:
  assumes pos: "0 < dims"
    and sel: "\<And>k. k < dims \<Longrightarrow> sel k ! (brow ! k) = map (v k) [0..<n]"
  shows "product_row sel brow dims n = map (\<lambda>j. \<Prod>k<dims. v k j) [0..<n]"
proof -
  let ?body = "\<lambda>(row, temp) k. let r = vmul (sel k ! (brow ! k)) temp in (r, r)"
  let ?I = "\<lambda>k st. snd st = map (\<lambda>j. \<Prod>k'<k. v k' j) [0..<n] \<and> (0 < k \<longrightarrow> fst st = snd st)"
  have "?I dims (foldl ?body (replicate n 0, replicate n 1) [0..<dims])"
  proof (rule foldl_upt_inv [where I = ?I])
    show "?I 0 (replicate n 0, replicate n 1)"
      by (simp add: map_replicate_const)
  next
    fix i st
    assume i: "i < dims" and inv: "?I i st"
    obtain row temp where st: "st = (row, temp)" by (cases st)
    from inv st have temp: "temp = map (\<lambda>j. \<Prod>k'<i. v k' j) [0..<n]" by simp
    have "vmul (sel i ! (brow ! i)) temp = map (\<lambda>j. \<Prod>k'<Suc i. v k' j) [0..<n]"
      by (simp add: vmul_def sel [OF i] temp map2_map_map mult.commute)
    with st show "?I (Suc i) (?body st i)" by (simp add: Let_def)
  qed
  with pos show ?thesis by (simp add: product_row_def)
qed

lemma product_matrix_eq:
  assumes len: "length (data B) = nrows B"
    and pos: "0 < ncols B"
    and sel: "\<And>i k. i < nrows B \<Longrightarrow> k < ncols B \<Longrightarrow> sel k ! (data B ! i ! k) = map (v i k) [0..<n]"
  shows "product_matrix sel B n =
           \<lparr>nrows = nrows B, ncols = n,
            data = map (\<lambda>i. map (\<lambda>j. \<Prod>k<ncols B. v i k j) [0..<n]) [0..<nrows B]\<rparr>"
proof -
  have "fold (\<lambda>i polynomial. polynomial[i := product_row sel (data B ! i) (ncols B) n])
          [0..<nrows B] (replicate (nrows B) (replicate n 0))
        = map (\<lambda>i. product_row sel (data B ! i) (ncols B) n) [0..<nrows B]"
    by (rule fold_update_upt) simp
  also have "\<dots> = map (\<lambda>i. map (\<lambda>j. \<Prod>k<ncols B. v i k j) [0..<n]) [0..<nrows B]"
    by (rule map_cong [OF refl]) (simp add: product_row_eq [OF pos sel])
  finally show ?thesis by (simp add: product_matrix_def)
qed

lemma table_row:
  assumes "deg \<le> mx" "length xs = n"
  shows "fst (getOrthoPoly P xs (Some mx)) ! deg = map (\<lambda>j. ortho P deg (xs ! j)) [0..<n]"
    and "snd (getOrthoPoly P xs (Some mx)) ! deg = map (\<lambda>j. dortho P deg (xs ! j)) [0..<n]"
proof -
  have n: "[0..<Suc mx] ! deg = deg" using assms(1) by (simp del: upt_Suc)
  have xs: "map f xs = map (\<lambda>j. f (xs ! j)) [0..<n]" for f :: "real \<Rightarrow> real"
    using assms(2) by (intro nth_equalityI) auto
  from assms(1) show "fst (getOrthoPoly P xs (Some mx)) ! deg = map (\<lambda>j. ortho P deg (xs ! j)) [0..<n]"
    by (simp add: getOrthoPoly_def n xs del: upt_Suc)
  from assms(1) show "snd (getOrthoPoly P xs (Some mx)) ! deg = map (\<lambda>j. dortho P deg (xs ! j)) [0..<n]"
    by (simp add: getOrthoPoly_def n xs del: upt_Suc)
qed

subsection \<open>getPolynomial\<close>

lemma stored_total_order [simp]: "setOrders total_order_basis = store_orders"
  by (simp add: total_order_basis_def)

lemma stored_empty [simp]: "setOrders empty_basis = store_orders"
  by (simp add: empty_basis_def)

lemma stored_univariate [simp]: "setOrders univariate_basis = store_orders"
  by (simp add: univariate_basis_def)

lemma basis_init [simp]:
  "setOrders b = store_orders \<Longrightarrow> elements (basis (init ps b)) = elements b"
  by (simp add: init_def call_setOrders_def store_orders_def Let_def)

lemma parameters_init [simp]: "parameters (init ps b) = ps"
  by (simp add: init_def Let_def)

lemma entry_le_column_max:
  assumes "i < length rows"
  shows "rows ! i ! k \<le> foldr max (map (\<lambda>r. r ! k) rows) (0::nat)"
proof -
  from assms have "map (\<lambda>r. r ! k) rows ! i \<in> set (map (\<lambda>r. r ! k) rows)"
    by (intro nth_mem) simp
  with assms have "rows ! i ! k \<in> set (map (\<lambda>r. r ! k) rows)" by simp
  then show ?thesis by (rule foldr_max_ge)
qed

text \<open>
  Claim C1, as amended. For a Basis table with \<open>m \<ge> 1\<close> rows and \<open>d \<ge> 2\<close> columns, one
  parameter for each column, and an \<open>n \<times> d\<close> matrix of canonical points,
  \<^verbatim>\<open>getPolynomial\<close> returns the \<open>m \<times> n\<close> matrix whose entry \<open>(i, j)\<close> is the product over
  all dimensions \<open>k\<close> of the univariate value of degree \<open>basis[i,k]\<close> at coordinate \<open>k\<close> of
  point \<open>j\<close>; row \<open>i\<close> of the result belongs to row \<open>i\<close> of the Basis.
\<close>

theorem getPolynomial_tensor_product:
  assumes B: "wf_array (elements (basis self))"
    and pts: "wf_array stackOfPoints"
    and cols: "ncols stackOfPoints = ncols (elements (basis self))"
    and d: "2 \<le> ncols (elements (basis self))"
    and ps: "length (parameters self) = ncols (elements (basis self))"
    and m: "0 < nrows (elements (basis self))"
  shows "getPolynomial self stackOfPoints =
           Inr \<lparr>nrows = nrows (elements (basis self)), ncols = nrows stackOfPoints,
                data = map (\<lambda>i. map (\<lambda>j. \<Prod>k<ncols (elements (basis self)).
                                      ortho (parameters self ! k)
                                        (data (elements (basis self)) ! i ! k)
                                        (data stackOfPoints ! j ! k))
                                  [0..<nrows stackOfPoints])
                         [0..<nrows (elements (basis self))]\<rparr>"
proof -
  let ?B = "elements (basis self)"
  let ?n = "nrows stackOfPoints"
  from B have lenB: "length (data ?B) = nrows ?B" by (simp add: wf_array_def)
  from pts have lenP: "length (data stackOfPoints) = ?n" by (simp add: wf_array_def)
  from lenB m have ne: "data ?B \<noteq> []" by auto
  let ?t = "\<lambda>i. getOrthoPoly (parameters self ! i) (map (\<lambda>r. r ! i) (data stackOfPoints))
                   (Some (foldr max (map (\<lambda>r. r ! i) (data ?B)) 0 + 0))"
  have tabs: "ortho_tables self ?B stackOfPoints 0 = Inr (map ?t [0..<ncols ?B])"
    by (rule ortho_tables_ok) (use ps cols ne in simp_all)
  have sel: "fst (map ?t [0..<ncols ?B] ! k) ! (data ?B ! i ! k)
               = map (\<lambda>j. ortho (parameters self ! k) (data ?B ! i ! k) (data stackOfPoints ! j ! k)) [0..<?n]"
    if "i < nrows ?B" "k < ncols ?B" for i k
  proof -
    from that lenB have "data ?B ! i ! k \<le> foldr max (map (\<lambda>r. r ! k) (data ?B)) 0"
      by (simp add: entry_le_column_max)
    then have "fst (?t k) ! (data ?B ! i ! k)
                 = map (\<lambda>j. ortho (parameters self ! k) (data ?B ! i ! k)
                               (map (\<lambda>r. r ! k) (data stackOfPoints) ! j)) [0..<?n]"
      by (intro table_row(1)) (simp_all add: lenP)
    with that lenP show ?thesis by simp
  qed
  from d have pos: "0 < ncols ?B" by simp
  have "product_matrix (\<lambda>k. fst (map ?t [0..<ncols ?B] ! k)) ?B ?n =
          \<lparr>nrows = nrows ?B, ncols = ?n,
           data = map (\<lambda>i. map (\<lambda>j. \<Prod>k<ncols ?B.
                                ortho (parameters self ! k) (data ?B ! i ! k) (data stackOfPoints ! j ! k))
                             [0..<?n]) [0..<nrows ?B]\<rparr>"
    by (rule product_matrix_eq [OF lenB pos]) (rule sel)
  with tabs d show ?thesis by (simp add: getPolynomial_def Let_def)
qed

text \<open>
  The scenario of the specification: at the origin the six basis terms take the values
  \<open>1, 0, 0, -1/2, 0, -1/2\<close>.
\<close>

theorem getPolynomial_tensor_product_witness:
  "getPolynomial (init [uniform_example, uniform_example] total_order_basis) origin =
     Inr \<lparr>nrows = 6, ncols = 1, data = [[1], [0], [0], [- (1 / 2)], [0], [- (1 / 2)]]\<rparr>"
proof -
  let ?self = "init [uniform_example, uniform_example] total_order_basis"
  have "wf_array (elements (basis ?self))" "wf_array origin"
    "ncols origin = ncols (elements (basis ?self))"
    "2 \<le> ncols (elements (basis ?self))"
    "length (parameters ?self) = ncols (elements (basis ?self))"
    "0 < nrows (elements (basis ?self))"
    by (simp_all add: wf_array_def total_order_basis_def origin_def)
  from getPolynomial_tensor_product [OF this]
  show ?thesis
    by (simp add: total_order_basis_def origin_def uniform_example_def legendre_def
        upt_rec [of _ "numeral n" for n] lessThan_Suc numeral_2_eq_2)
qed

text \<open>
  Claim C1 as it is written fails for a Basis table without rows: \<^verbatim>\<open>np.max\<close> of an
  empty column raises \<^verbatim>\<open>ValueError\<close>, and no matrix is returned.
\<close>

theorem getPolynomial_empty_basis_counterexample:
  "getPolynomial (init [uniform_example, uniform_example] empty_basis) origin = Inl ValueError"
  by (simp add: getPolynomial_def ortho_tables_def empty_basis_def origin_def column_def np_max_def
      upt_rec [of _ "numeral n" for n])

subsection \<open>getPolynomialGradient\<close>

lemma foldl_snoc_upt: "foldl (\<lambda>R v. R @ [g v]) [] [0..<d] = map g [0..<d]"
  by (rule foldl_upt_inv [where I = "\<lambda>k R. R = map g [0..<k]"]) simp_all

text \<open>
  Claim C2, as amended. For a Basis table with \<open>m \<ge> 1\<close> rows and \<open>d \<ge> 2\<close> columns, one
  parameter for each column, and an \<open>n \<times> d\<close> matrix of canonical points,
  \<^verbatim>\<open>getPolynomialGradient\<close> returns a list of exactly \<open>d\<close> matrices, each \<open>m \<times> n\<close>. In the
  matrix of direction \<open>v\<close> the entry of basis row \<open>i\<close> at point \<open>j\<close> is the product over all
  dimensions \<open>k\<close> of the univariate value of degree \<open>basis[i,k]\<close>, with the derivative
  value in its place for \<open>k = v\<close>.
\<close>

theorem getPolynomialGradient_product_rule:
  assumes B: "wf_array (elements (basis self))"
    and pts: "wf_array stackOfPoints"
    and cols: "ncols stackOfPoints = ncols (elements (basis self))"
    and d: "2 \<le> ncols (elements (basis self))"
    and ps: "length (parameters self) = ncols (elements (basis self))"
    and m: "0 < nrows (elements (basis self))"
  shows "getPolynomialGradient self stackOfPoints =
           Inr (Directions
             (map (\<lambda>v. \<lparr>nrows = nrows (elements (basis self)), ncols = nrows stackOfPoints,
                         data = map (\<lambda>i. map (\<lambda>j. \<Prod>k<ncols (elements (basis self)).
                                    (if k = v
                                     then dortho (parameters self ! k)
                                            (data (elements (basis self)) ! i ! k)
                                            (data stackOfPoints ! j ! k)
                                     else ortho (parameters self ! k)
                                            (data (elements (basis self)) ! i ! k)
                                            (data stackOfPoints ! j ! k)))
                                  [0..<nrows stackOfPoints])
                         [0..<nrows (elements (basis self))]\<rparr>)
                [0..<ncols (elements (basis self))]))"
proof -
  let ?B = "elements (basis self)"
  let ?n = "nrows stackOfPoints"
  from B have lenB: "length (data ?B) = nrows ?B" by (simp add: wf_array_def)
  from pts have lenP: "length (data stackOfPoints) = ?n" by (simp add: wf_array_def)
  from lenB m have ne: "data ?B \<noteq> []" by auto
  let ?t = "\<lambda>i. getOrthoPoly (parameters self ! i) (map (\<lambda>r. r ! i) (data stackOfPoints))
                   (Some (Suc (foldr max (map (\<lambda>r. r ! i) (data ?B)) 0)))"
  let ?p = "map ?t [0..<ncols ?B]"
  let ?val = "\<lambda>v i k j. if k = v
                 then dortho (parameters self ! k) (data ?B ! i ! k) (data stackOfPoints ! j ! k)
                 else ortho (parameters self ! k) (data ?B ! i ! k) (data stackOfPoints ! j ! k)"
  have "ortho_tables self ?B stackOfPoints 1 =
          Inr (map (\<lambda>i. getOrthoPoly (parameters self ! i) (map (\<lambda>r. r ! i) (data stackOfPoints))
                           (Some (foldr max (map (\<lambda>r. r ! i) (data ?B)) 0 + 1))) [0..<ncols ?B])"
    by (rule ortho_tables_ok) (use ps cols ne in simp_all)
  then have tabs: "ortho_tables self ?B stackOfPoints 1 = Inr ?p" by simp
  have sel: "(if k = v then snd (?p ! k) else fst (?p ! k)) ! (data ?B ! i ! k)
               = map (?val v i k) [0..<?n]"
    if "i < nrows ?B" "k < ncols ?B" for i k v
  proof -
    from that lenB have "data ?B ! i ! k \<le> foldr max (map (\<lambda>r. r ! k) (data ?B)) 0"
      by (intro entry_le_column_max) simp
    then have le: "data ?B ! i ! k \<le> Suc (foldr max (map (\<lambda>r. r ! k) (data ?B)) 0)"
      by simp
    have len: "length (map (\<lambda>r. r ! k) (data stackOfPoints)) = ?n" by (simp add: lenP)
    note rows = table_row [OF le len, of "parameters self ! k"]
    from that lenP have nth: "map (\<lambda>r. r ! k) (data stackOfPoints) ! j = data stackOfPoints ! j ! k"
      if "j < ?n" for j using that by simp
    have "fst (?t k) ! (data ?B ! i ! k)
            = map (\<lambda>j. ortho (parameters self ! k) (data ?B ! i ! k) (data stackOfPoints ! j ! k)) [0..<?n]"
      unfolding rows(1) by (rule map_cong [OF refl]) (simp add: nth)
    moreover have "snd (?t k) ! (data ?B ! i ! k)
            = map (\<lambda>j. dortho (parameters self ! k) (data ?B ! i ! k) (data stackOfPoints ! j ! k)) [0..<?n]"
      unfolding rows(2) by (rule map_cong [OF refl]) (simp add: nth)
    moreover have "?p ! k = ?t k" using that(2) by (simp del: upt_Suc)
    ultimately show ?thesis by (cases "k = v") (simp_all only: simp_thms if_True if_False)
  qed
  from d have pos: "0 < ncols ?B" by simp
  have mat: "product_matrix (\<lambda>k. if k = v then snd (?p ! k) else fst (?p ! k)) ?B ?n =
          \<lparr>nrows = nrows ?B, ncols = ?n,
           data = map (\<lambda>i. map (\<lambda>j. \<Prod>k<ncols ?B. ?val v i k j) [0..<?n]) [0..<nrows ?B]\<rparr>" for v
    by (rule product_matrix_eq [OF lenB pos]) (rule sel)
  from tabs d have "getPolynomialGradient self stackOfPoints =
      Inr (Directions (map (\<lambda>v. product_matrix (\<lambda>k. if k = v then snd (?p ! k) else fst (?p ! k)) ?B ?n)
                         [0..<ncols ?B]))"
    by (simp add: getPolynomialGradient_def Let_def foldl_snoc_upt)
  then show ?thesis by (simp only: mat)
qed

text \<open>The two gradient matrices of the six-term basis at the point \<open>(1, 1/2)\<close>.\<close>

theorem getPolynomialGradient_product_rule_witness:
  "getPolynomialGradient (init [uniform_example, uniform_example] total_order_basis) sample_point =
     Inr (Directions
       [\<lparr>nrows = 6, ncols = 1, data = [[0], [1], [0], [3], [1 / 2], [0]]\<rparr>,
        \<lparr>nrows = 6, ncols = 1, data = [[0], [0], [1], [0], [1], [3 / 2]]\<rparr>])"
proof -
  let ?self = "init [uniform_example, uniform_example] total_order_basis"
  have "wf_array (elements (basis ?self))" "wf_array sample_point"
    "ncols sample_point = ncols (elements (basis ?self))"
    "2 \<le> ncols (elements (basis ?self))"
    "length (parameters ?self) = ncols (elements (basis ?self))"
    "0 < nrows (elements (basis ?self))"
    by (simp_all add: wf_array_def total_order_basis_def sample_point_def)
  from getPolynomialGradient_product_rule [OF this]
  show ?thesis
    by (simp add: total_order_basis_def sample_point_def uniform_example_def legendre_def
        dlegendre_def upt_rec [of _ "numeral n" for n] lessThan_Suc numeral_2_eq_2)
qed

text \<open>
  Claim C2 as it is written fails for a Basis table without rows, for the reason that
  \<^verbatim>\<open>getPolynomial\<close> fails there: no list of matrices is returned.
\<close>

theorem getPolynomialGradient_empty_basis_counterexample:
  "getPolynomialGradient (init [uniform_example, uniform_example] empty_basis) sample_point
     = Inl ValueError"
  by (simp add: getPolynomialGradient_def ortho_tables_def empty_basis_def sample_point_def
      column_def np_max_def upt_rec [of _ "numeral n" for n])

text \<open>
  Claim C7. With a Basis table of one column (and its one parameter)
  \<^verbatim>\<open>getPolynomialGradient\<close> takes the shortcut and returns the table of the plain
  univariate values, up to the parameter's own order: the derivative table of
  \<^verbatim>\<open>_getOrthoPoly\<close> is discarded, where the general path puts the derivative in the
  gradient direction.
\<close>

theorem getPolynomialGradient_univariate_values:
  assumes d: "ncols (elements (basis self)) = 1"
    and ps: "length (parameters self) = 1"
  shows "getPolynomialGradient self stackOfPoints =
           Inr (Univariate
             \<lparr>nrows = Suc (order (parameters self ! 0)),
              ncols = length (concat (data stackOfPoints)),
              data = map (\<lambda>deg. map (ortho (parameters self ! 0) deg) (concat (data stackOfPoints)))
                       [0..<Suc (order (parameters self ! 0))]\<rparr>)"
  using assms by (simp add: getPolynomialGradient_def getOrthoPoly_def Let_def del: upt_Suc)

text \<open>
  At the point \<open>1/2\<close> the shortcut returns the values \<open>1, 1/2, -1/8\<close>; the derivatives
  there are \<open>0, 1, 3/2\<close>.
\<close>

theorem getPolynomialGradient_univariate_values_witness:
  "getPolynomialGradient (init [uniform_example] univariate_basis) half_point =
     Inr (Univariate \<lparr>nrows = 3, ncols = 1, data = [[1], [1 / 2], [- (1 / 8)]]\<rparr>)
   \<and> snd (getOrthoPoly uniform_example [1 / 2] None) = [[0], [1], [3 / 2]]"
proof -
  let ?self = "init [uniform_example] univariate_basis"
  have "ncols (elements (basis ?self)) = 1" "length (parameters ?self) = 1"
    by (simp_all add: univariate_basis_def)
  from getPolynomialGradient_univariate_values [OF this, of half_point]
  show ?thesis
    by (simp add: half_point_def uniform_example_def legendre_def dlegendre_def getOrthoPoly_def
        upt_rec [of _ "numeral n" for n] numeral_3_eq_3)
qed

subsection \<open>The constructor and unrecognised options\<close>

lemma init_orders: "Poly.orders (init ps b) = map order ps"
proof -
  have "map (\<lambda>i. order (ps ! i)) [0..<length ps] = map order ps"
    by (intro nth_equalityI) auto
  then show ?thesis by (simp add: init_def Let_def foldl_snoc_upt)
qed

lemma basis_of_init: "basis (init ps b) = call_setOrders b (map order ps)"
proof -
  have "map (\<lambda>i. order (ps ! i)) [0..<length ps] = map order ps"
    by (intro nth_equalityI) auto
  then show ?thesis by (simp add: init_def Let_def foldl_snoc_upt)
qed

lemma dimensions_init [simp]: "dimensions (init ps b) = length ps"
  by (simp add: init_def Let_def)

lemma coefficients_init [simp]: "coefficients (init ps b) = None"
  by (simp add: init_def Let_def)

lemma designMatrix_init [simp]: "designMatrix (init ps b) = None"
  by (simp add: init_def Let_def)

text \<open>
  Claim C9, as amended. An explicit rule-selection string that, in lower case, is neither
  \<^verbatim>\<open>qmc\<close> nor \<^verbatim>\<open>tensor grid\<close> makes \<^verbatim>\<open>getQuadratureRule\<close> fall through both tests and
  return \<^verbatim>\<open>None\<close>: no error is reported.
\<close>

theorem getQuadratureRule_unrecognised_option:
  assumes "str_lower s \<noteq> ''qmc''" and "str_lower s \<noteq> ''tensor grid''"
  shows "getQuadratureRule self (Some s) = Inr None"
  using assms by (simp add: getQuadratureRule_def)

theorem getQuadratureRule_unrecognised_option_witness:
  "str_lower ''Monte Carlo'' \<noteq> ''qmc'' \<and> str_lower ''Monte Carlo'' \<noteq> ''tensor grid''
   \<and> getQuadratureRule (init [uniform_example, uniform_example] total_order_basis)
        (Some ''Monte Carlo'') = Inr None"
proof -
  have a: "str_lower ''Monte Carlo'' \<noteq> ''qmc''" by (simp add: str_lower_def)
  have b: "str_lower ''Monte Carlo'' \<noteq> ''tensor grid''" by (simp add: str_lower_def)
  from a b getQuadratureRule_unrecognised_option [OF a b] show ?thesis by simp
qed

text \<open>
  Claim C9 as it is written fails: for the option \<^verbatim>\<open>sparse grid\<close> the call ends without an
  error.
\<close>

theorem getQuadratureRule_sparse_grid_counterexample:
  "getQuadratureRule (init [uniform_example, uniform_example] total_order_basis)
     (Some ''sparse grid'') = Inr None"
  by (simp add: getQuadratureRule_def str_lower_def lower_char_def)


subsection \<open>scaleInputs\<close>

lemma update_at_split:
  assumes "length A = k" and "k < length xs"
  shows "(A @ drop k xs)[k := v] = A @ [v] @ drop (Suc k) xs"
proof -
  from assms(2) have "drop k xs = xs ! k # drop (Suc k) xs"
    by (simp add: Cons_nth_drop_Suc)
  with assms(1) show ?thesis by (simp add: list_update_append)
qed

lemma nth_at_split:
  assumes "length A = k" and "k < length xs"
  shows "(A @ drop k xs) ! k = xs ! k"
  using assms by (simp add: nth_append)

lemma scaleInputs_body_eq:
  assumes "i < length (parameters self)" and "i < ncols points"
    and "j < length (data points)" and "i < length (data points ! j)"
  shows "scaleInputs_body self i j points =
           Inr (points\<lparr>data := (data points)[j := (data points ! j)
                  [i := canonical_value (parameters self ! i) (data points ! j ! i)]]\<rparr>)"
  using assms
  by (simp add: scaleInputs_body_def canonical_value_def set_entry_def get_entry_def Let_def)

lemma scale_column:
  assumes i: "i < length (parameters self)" "i < ncols points"
    and len: "length (data points) = rows"
    and rowlen: "\<And>r. r \<in> set (data points) \<Longrightarrow> i < length r"
  shows "fold_err (\<lambda>j. scaleInputs_body self i j) [0..<rows] points =
           Inr (points\<lparr>data := map (\<lambda>r. r[i := canonical_value (parameters self ! i) (r ! i)])
                                   (data points)\<rparr>)"
proof -
  let ?g = "\<lambda>r. r[i := canonical_value (parameters self ! i) (r ! i)]"
  let ?I = "\<lambda>k s. s = points\<lparr>data := map ?g (take k (data points)) @ drop k (data points)\<rparr>"
  have "\<exists>s. fold_err (\<lambda>j. scaleInputs_body self i j) [0..<rows] points = Inr s \<and> ?I rows s"
  proof (rule fold_err_upt_inv [where I = ?I])
    show "?I 0 points" by simp
  next
    fix j s
    assume j: "j < rows" and s: "?I j s"
    let ?A = "map ?g (take j (data points))"
    from j len have lenA: "length ?A = j" by simp
    from j len have jlt: "j < length (data points)" by simp
    from s have ds: "data s = ?A @ drop j (data points)" by simp
    from lenA jlt have nth: "data s ! j = data points ! j" unfolding ds by (rule nth_at_split)
    from jlt have "data points ! j \<in> set (data points)" by simp
    then have il: "i < length (data points ! j)" by (rule rowlen)
    from s i have ic: "i < ncols s" by simp
    from jlt lenA have jl: "j < length (data s)" unfolding ds by simp
    have "scaleInputs_body self i j s = Inr (s\<lparr>data := (data s)[j := ?g (data s ! j)]\<rparr>)"
      by (rule scaleInputs_body_eq) (use i ic jl il nth in simp_all)
    moreover have "(data s)[j := ?g (data s ! j)] =
        map ?g (take (Suc j) (data points)) @ drop (Suc j) (data points)"
    proof -
      have "(data s)[j := ?g (data s ! j)] = (data s)[j := ?g (data points ! j)]"
        by (simp only: nth)
      also have "\<dots> = (?A @ drop j (data points))[j := ?g (data points ! j)]"
        by (simp only: ds)
      also have "\<dots> = ?A @ [?g (data points ! j)] @ drop (Suc j) (data points)"
        by (rule update_at_split [OF lenA jlt])
      also have "\<dots> = map ?g (take (Suc j) (data points)) @ drop (Suc j) (data points)"
        using jlt by (simp add: take_Suc_conv_app_nth)
      finally show ?thesis .
    qed
    ultimately show "\<exists>s'. scaleInputs_body self i j s = Inr s' \<and> ?I (Suc j) s'"
      using s by simp
  qed
  with len show ?thesis by simp
qed

lemma scaleInputs_closed_form:
  assumes inv: "dimensions self = length (parameters self)"
    and x: "wf_array x"
    and cols: "ncols x = dimensions self"
  shows "scaleInputs self x =
           Inr \<lparr>nrows = nrows x, ncols = ncols x,
                data = map (\<lambda>row. map (\<lambda>i. canonical_value (parameters self ! i) (row ! i))
                                    [0..<ncols x]) (data x)\<rparr>"
proof -
  let ?d = "dimensions self"
  let ?h = "\<lambda>k row. map (\<lambda>i. canonical_value (parameters self ! i) (row ! i)) [0..<k] @ drop k row"
  let ?I = "\<lambda>k s. s = x\<lparr>data := map (?h k) (data x)\<rparr>"
  from x have len: "length (data x) = nrows x"
    and rowlen: "\<And>r. r \<in> set (data x) \<Longrightarrow> length r = ?d"
    using cols by (simp_all add: wf_array_def list_all_iff)
  have "\<exists>s. fold_err (\<lambda>i. fold_err (\<lambda>j. scaleInputs_body self i j) [0..<nrows x]) [0..<?d] x = Inr s
          \<and> ?I ?d s"
  proof (rule fold_err_upt_inv [where I = ?I])
    show "?I 0 x" by simp
  next
    fix i s
    assume i: "i < ?d" and s: "?I i s"
    have step: "(?h i r)[i := canonical_value (parameters self ! i) (?h i r ! i)] = ?h (Suc i) r"
      if "r \<in> set (data x)" for r
    proof -
      from that i have il: "i < length r" by (simp add: rowlen)
      have lenA: "length (map (\<lambda>i. canonical_value (parameters self ! i) (r ! i)) [0..<i]) = i"
        by simp
      show ?thesis
        unfolding nth_at_split [OF lenA il] update_at_split [OF lenA il] by simp
    qed
    have "fold_err (\<lambda>j. scaleInputs_body self i j) [0..<nrows x] s =
            Inr (s\<lparr>data := map (\<lambda>r. r[i := canonical_value (parameters self ! i) (r ! i)]) (data s)\<rparr>)"
    proof (rule scale_column)
      from i inv show "i < length (parameters self)" by simp
      from i s cols show "i < ncols s" by simp
      from s len show "length (data s) = nrows x" by simp
      fix r assume "r \<in> set (data s)"
      with s obtain r0 where "r0 \<in> set (data x)" "r = ?h i r0" by auto
      with i show "i < length r" by (simp add: rowlen)
    qed
    moreover have "map (\<lambda>r. r[i := canonical_value (parameters self ! i) (r ! i)]) (data s)
                     = map (?h (Suc i)) (data x)"
      using s step by simp
    ultimately show "\<exists>s'. fold_err (\<lambda>j. scaleInputs_body self i j) [0..<nrows x] s = Inr s'
                        \<and> ?I (Suc i) s'"
      using s by simp
  qed
  moreover have "map (?h ?d) (data x) =
      map (\<lambda>row. map (\<lambda>i. canonical_value (parameters self ! i) (row ! i)) [0..<?d]) (data x)"
    by (rule map_cong [OF refl]) (simp add: rowlen)
  moreover have "x\<lparr>data := D\<rparr> = \<lparr>nrows = nrows x, ncols = ncols x, data = D\<rparr>" for D
    by (cases x) simp
  ultimately show ?thesis by (simp add: scaleInputs_def cols)
qed

lemma canonical_value_cases:
  assumes "param_type P = ''Uniform'' \<or> param_type P = ''Beta'' \<longrightarrow> lower P \<noteq> upper P"
  shows "(param_type P = ''Uniform'' \<longrightarrow>
            canonical_value P v = 2 * (v - lower P) / (upper P - lower P) - 1
            \<and> (v = lower P \<longrightarrow> canonical_value P v = - 1)
            \<and> (v = upper P \<longrightarrow> canonical_value P v = 1))
       \<and> (param_type P = ''Beta'' \<longrightarrow>
            canonical_value P v = (v - lower P) / (upper P - lower P)
            \<and> (v = lower P \<longrightarrow> canonical_value P v = 0)
            \<and> (v = upper P \<longrightarrow> canonical_value P v = 1))
       \<and> (param_type P \<noteq> ''Uniform'' \<and> param_type P \<noteq> ''Beta'' \<longrightarrow> canonical_value P v = v)"
proof -
  consider (uniform) "param_type P = ''Uniform''" | (beta) "param_type P = ''Beta''"
    | (other) "param_type P \<noteq> ''Uniform''" "param_type P \<noteq> ''Beta''"
    by blast
  then show ?thesis
  proof cases
    case uniform
    with assms have "upper P - lower P \<noteq> 0" by simp
    then have "2 * (upper P - lower P) / (upper P - lower P) = 2"
      by (rule nonzero_mult_div_cancel_right)
    with uniform show ?thesis by (simp add: canonical_value_def)
  next
    case beta
    with assms have "upper P - lower P \<noteq> 0" by simp
    with beta show ?thesis by (simp add: canonical_value_def)
  next
    case other
    then show ?thesis by (simp add: canonical_value_def)
  qed
qed

text \<open>
  Claim C5. For an \<open>n \<times> d\<close> input matrix, \<open>d\<close> being the number of parameters,
  \<^verbatim>\<open>scaleInputs\<close> returns an \<open>n \<times> d\<close> matrix in which every entry of a Uniform column is
  \<open>2 (x - lower) / (upper - lower) - 1\<close>, so that \<open>lower\<close> yields \<open>-1\<close> and \<open>upper\<close> yields
  \<open>1\<close>; every entry of a Beta column is \<open>(x - lower) / (upper - lower)\<close>, so that \<open>lower\<close>
  yields \<open>0\<close> and \<open>upper\<close> yields \<open>1\<close>; and every entry of a column of any other kind is
  the input entry. The bounds of a Uniform or Beta parameter are two different numbers:
  with equal bounds the quotient is a floating-point division by zero, which real
  numbers do not have.
\<close>

theorem scaleInputs_canonical:
  assumes inv: "dimensions self = length (parameters self)"
    and x: "wf_array x"
    and cols: "ncols x = dimensions self"
    and bounds: "\<forall>P \<in> set (parameters self).
                   param_type P = ''Uniform'' \<or> param_type P = ''Beta'' \<longrightarrow> lower P \<noteq> upper P"
  shows "\<exists>pts. scaleInputs self x = Inr pts
           \<and> nrows pts = nrows x \<and> ncols pts = ncols x \<and> wf_array pts
           \<and> (\<forall>j<nrows x. \<forall>i<ncols x.
                 (param_type (parameters self ! i) = ''Uniform'' \<longrightarrow>
                    data pts ! j ! i =
                      2 * (data x ! j ! i - lower (parameters self ! i))
                        / (upper (parameters self ! i) - lower (parameters self ! i)) - 1
                    \<and> (data x ! j ! i = lower (parameters self ! i) \<longrightarrow> data pts ! j ! i = - 1)
                    \<and> (data x ! j ! i = upper (parameters self ! i) \<longrightarrow> data pts ! j ! i = 1))
               \<and> (param_type (parameters self ! i) = ''Beta'' \<longrightarrow>
                    data pts ! j ! i =
                      (data x ! j ! i - lower (parameters self ! i))
                        / (upper (parameters self ! i) - lower (parameters self ! i))
                    \<and> (data x ! j ! i = lower (parameters self ! i) \<longrightarrow> data pts ! j ! i = 0)
                    \<and> (data x ! j ! i = upper (parameters self ! i) \<longrightarrow> data pts ! j ! i = 1))
               \<and> (param_type (parameters self ! i) \<noteq> ''Uniform''
                    \<and> param_type (parameters self ! i) \<noteq> ''Beta'' \<longrightarrow>
                    data pts ! j ! i = data x ! j ! i))"
proof -
  let ?pts = "\<lparr>nrows = nrows x, ncols = ncols x,
               data = map (\<lambda>row. map (\<lambda>i. canonical_value (parameters self ! i) (row ! i))
                                   [0..<ncols x]) (data x)\<rparr>"
  have eq: "scaleInputs self x = Inr ?pts"
    by (rule scaleInputs_closed_form [OF inv x cols])
  from x have len: "length (data x) = nrows x" by (simp add: wf_array_def)
  then have wf: "wf_array ?pts" by (simp add: wf_array_def list_all_iff)
  have entry: "data ?pts ! j ! i = canonical_value (parameters self ! i) (data x ! j ! i)"
    if "j < nrows x" "i < ncols x" for j i
    using that len by simp
  have P: "param_type (parameters self ! i) = ''Uniform'' \<or> param_type (parameters self ! i) = ''Beta''
             \<longrightarrow> lower (parameters self ! i) \<noteq> upper (parameters self ! i)"
    if "i < ncols x" for i
  proof -
    from that cols inv have "parameters self ! i \<in> set (parameters self)" by simp
    with bounds show ?thesis by blast
  qed
  have main: "\<forall>j<nrows x. \<forall>i<ncols x.
                 (param_type (parameters self ! i) = ''Uniform'' \<longrightarrow>
                    data ?pts ! j ! i =
                      2 * (data x ! j ! i - lower (parameters self ! i))
                        / (upper (parameters self ! i) - lower (parameters self ! i)) - 1
                    \<and> (data x ! j ! i = lower (parameters self ! i) \<longrightarrow> data ?pts ! j ! i = - 1)
                    \<and> (data x ! j ! i = upper (parameters self ! i) \<longrightarrow> data ?pts ! j ! i = 1))
               \<and> (param_type (parameters self ! i) = ''Beta'' \<longrightarrow>
                    data ?pts ! j ! i =
                      (data x ! j ! i - lower (parameters self ! i))
                        / (upper (parameters self ! i) - lower (parameters self ! i))
                    \<and> (data x ! j ! i = lower (parameters self ! i) \<longrightarrow> data ?pts ! j ! i = 0)
                    \<and> (data x ! j ! i = upper (parameters self ! i) \<longrightarrow> data ?pts ! j ! i = 1))
               \<and> (param_type (parameters self ! i) \<noteq> ''Uniform''
                    \<and> param_type (parameters self ! i) \<noteq> ''Beta'' \<longrightarrow>
                    data ?pts ! j ! i = data x ! j ! i)"
  proof (intro allI impI)
    fix j i
    assume j: "j < nrows x" and i: "i < ncols x"
    note c = canonical_value_cases [OF P [OF i], of "data x ! j ! i"]
    show "(param_type (parameters self ! i) = ''Uniform'' \<longrightarrow>
                    data ?pts ! j ! i =
                      2 * (data x ! j ! i - lower (parameters self ! i))
                        / (upper (parameters self ! i) - lower (parameters self ! i)) - 1
                    \<and> (data x ! j ! i = lower (parameters self ! i) \<longrightarrow> data ?pts ! j ! i = - 1)
                    \<and> (data x ! j ! i = upper (parameters self ! i) \<longrightarrow> data ?pts ! j ! i = 1))
               \<and> (param_type (parameters self ! i) = ''Beta'' \<longrightarrow>
                    data ?pts ! j ! i =
                      (data x ! j ! i - lower (parameters self ! i))
                        / (upper (parameters self ! i) - lower (parameters self ! i))
                    \<and> (data x ! j ! i = lower (parameters self ! i) \<longrightarrow> data ?pts ! j ! i = 0)
                    \<and> (data x ! j ! i = upper (parameters self ! i) \<longrightarrow> data ?pts ! j ! i = 1))
               \<and> (param_type (parameters self ! i) \<noteq> ''Uniform''
                    \<and> param_type (parameters self ! i) \<noteq> ''Beta'' \<longrightarrow>
                    data ?pts ! j ! i = data x ! j ! i)"
      unfolding entry [OF j i] by (rule c)
  qed
  have shape: "nrows ?pts = nrows x" "ncols ?pts = ncols x" by simp_all
  show ?thesis by (rule exI [of _ ?pts]) (intro conjI eq shape wf main)
qed

text \<open>
  A Uniform column on \<open>[0, 4]\<close>, a Beta column on \<open>[1, 3]\<close> and a column of another kind:
  the bounds go to \<open>-1\<close> and \<open>1\<close>, to \<open>0\<close> and \<open>1\<close>, and the third column stays.
\<close>

theorem scaleInputs_canonical_witness:
  "\<exists>pts. scaleInputs (init mixed_parameters total_order_basis) physical_points = Inr pts
     \<and> data pts ! 0 ! 0 = - 1 \<and> data pts ! 1 ! 0 = 1
     \<and> data pts ! 0 ! 1 = 0 \<and> data pts ! 1 ! 1 = 1
     \<and> data pts ! 0 ! 2 = 7 \<and> data pts ! 1 ! 2 = 9"
proof -
  let ?self = "init mixed_parameters total_order_basis"
  have "dimensions ?self = length (parameters ?self)" "wf_array physical_points"
    "ncols physical_points = dimensions ?self"
    "\<forall>P \<in> set (parameters ?self).
        param_type P = ''Uniform'' \<or> param_type P = ''Beta'' \<longrightarrow> lower P \<noteq> upper P"
    by (simp_all add: mixed_parameters_def physical_points_def wf_array_def uniform_example_def)
  from scaleInputs_canonical [OF this] obtain pts where
    eq: "scaleInputs ?self physical_points = Inr pts" and
    all: "\<forall>j<nrows physical_points. \<forall>i<ncols physical_points.
                 (param_type (parameters ?self ! i) = ''Uniform'' \<longrightarrow>
                    data pts ! j ! i =
                      2 * (data physical_points ! j ! i - lower (parameters ?self ! i))
                        / (upper (parameters ?self ! i) - lower (parameters ?self ! i)) - 1
                    \<and> (data physical_points ! j ! i = lower (parameters ?self ! i) \<longrightarrow> data pts ! j ! i = - 1)
                    \<and> (data physical_points ! j ! i = upper (parameters ?self ! i) \<longrightarrow> data pts ! j ! i = 1))
               \<and> (param_type (parameters ?self ! i) = ''Beta'' \<longrightarrow>
                    data pts ! j ! i =
                      (data physical_points ! j ! i - lower (parameters ?self ! i))
                        / (upper (parameters ?self ! i) - lower (parameters ?self ! i))
                    \<and> (data physical_points ! j ! i = lower (parameters ?self ! i) \<longrightarrow> data pts ! j ! i = 0)
                    \<and> (data physical_points ! j ! i = upper (parameters ?self ! i) \<longrightarrow> data pts ! j ! i = 1))
               \<and> (param_type (parameters ?self ! i) \<noteq> ''Uniform''
                    \<and> param_type (parameters ?self ! i) \<noteq> ''Beta'' \<longrightarrow>
                    data pts ! j ! i = data physical_points ! j ! i)"
    by blast
  have "data pts ! 0 ! 0 = - 1" "data pts ! 1 ! 0 = 1" "data pts ! 0 ! 1 = 0" "data pts ! 1 ! 1 = 1"
    "data pts ! 0 ! 2 = 7" "data pts ! 1 ! 2 = 9"
    using all [rule_format, of 0 0] all [rule_format, of 1 0] all [rule_format, of 0 1]
      all [rule_format, of 1 1] all [rule_format, of 0 2] all [rule_format, of 1 2]
    by (simp_all add: mixed_parameters_def physical_points_def uniform_example_def)
  with eq show ?thesis by blast
qed

subsection \<open>The quasi-random rule\<close>

lemma map2_upt_nth:
  assumes "length s = n"
  shows "map2 f (map g [0..<n]) s = map (\<lambda>j. f (g j) (s ! j)) [0..<n]"
  using assms by (intro nth_equalityI) auto

lemma floor_log2:
  assumes "2 powr of_int e \<le> x" and "x < 2 powr (of_int e + 1)"
  shows "\<lfloor>log 2 x\<rfloor> = e"
proof -
  have "0 < (2::real) powr of_int e" by simp
  with assms(1) have pos: "0 < x" by linarith
  from pos assms(1) have "of_int e \<le> log 2 x" by (simp add: le_log_iff)
  moreover from pos assms(2) have "log 2 x < of_int e + 1" by (simp add: log_less_iff)
  ultimately show ?thesis by (rule floor_unique)
qed

lemma binary64_round_pos:
  assumes "2 powr of_int e \<le> x" and "x < 2 powr (of_int e + 1)"
  shows "binary64_round x =
           of_int (round_half_even (x * 2 powr (52 - of_int e))) * 2 powr (of_int e - 52)"
proof -
  have "0 < (2::real) powr of_int e" by simp
  with assms(1) have pos: "0 < x" by linarith
  with floor_log2 [OF assms] show ?thesis
    by (simp add: binary64_round_def Let_def)
qed

lemma round_half_even_quotient:
  "round_half_even (1 / 20000 * 2 ^ 67) = 7378697629483821"
proof -
  have f: "\<lfloor>(1::real) / 20000 * 2 ^ 67\<rfloor> = 7378697629483820" by simp
  show ?thesis unfolding round_half_even_def Let_def f by simp
qed

lemma binary64_one_over_N:
  "binary64_round (1 / 20000) = 7378697629483821 / 2 ^ 67"
proof -
  have a: "(2::real) powr of_int (- 15) \<le> 1 / 20000"
    by (simp add: powr_minus_divide)
  have b: "(1::real) / 20000 < 2 powr (of_int (- 15) + 1)"
    by (simp add: powr_minus_divide)
  have c: "(2::real) powr (52 - of_int (- 15)) = 2 ^ 67" by simp
  have d: "(2::real) powr (of_int (- 15) - 52) = 1 / 2 ^ 67" by (simp add: powr_minus_divide)
  show ?thesis
    unfolding binary64_round_pos [OF a b] c d round_half_even_quotient by simp
qed

lemma round_half_even_int: "round_half_even (of_int m) = m"
  by (simp add: round_half_even_def)

lemma binary64_weight_times_one:
  "binary64_round (7378697629483821 / 2 ^ 67 * 1) = 7378697629483821 / 2 ^ 67"
proof -
  have a: "(2::real) powr of_int (- 15) \<le> 7378697629483821 / 2 ^ 67 * 1"
    by (simp add: powr_minus_divide)
  have b: "(7378697629483821::real) / 2 ^ 67 * 1 < 2 powr (of_int (- 15) + 1)"
    by (simp add: powr_minus_divide)
  have c: "(2::real) powr (52 - of_int (- 15)) = 2 ^ 67" by simp
  have d: "(2::real) powr (of_int (- 15) - 52) = 1 / 2 ^ 67" by (simp add: powr_minus_divide)
  have e: "(7378697629483821::real) / 2 ^ 67 * 1 * 2 ^ 67 = of_int 7378697629483821" by simp
  show ?thesis
    unfolding binary64_round_pos [OF a b] c d e round_half_even_int by simp
qed

lemma qmc_weight:
  "binary64_round (binary64_round (1 / real default_number_of_points) * 1)
     = 7378697629483821 / 2 ^ 67"
proof -
  have "real default_number_of_points = 20000" by (simp add: default_number_of_points_def)
  then show ?thesis by (simp only: binary64_one_over_N binary64_weight_times_one)
qed

lemma qmc_rule_closed_form:
  assumes inv: "dimensions self = length (parameters self)"
    and samples: "\<And>P. P \<in> set (parameters self) \<Longrightarrow>
                    length (getSamples P default_number_of_points) = default_number_of_points"
  shows "qmc_rule self =
           Inr (\<lparr>nrows = default_number_of_points, ncols = dimensions self,
                 data = map (\<lambda>j. map (\<lambda>i. getSamples (parameters self ! i)
                                              default_number_of_points ! j)
                                     [0..<dimensions self])
                          [0..<default_number_of_points]\<rparr>,
                replicate default_number_of_points (7378697629483821 / 2 ^ 67))"
proof -
  let ?N = default_number_of_points
  let ?d = "dimensions self"
  let ?smp = "\<lambda>i. getSamples (parameters self ! i) ?N"
  let ?row = "\<lambda>k j. map (\<lambda>i. if i < k then ?smp i ! j else 0) [0..<?d]"
  let ?I = "\<lambda>k p. p = \<lparr>nrows = ?N, ncols = ?d, data = map (?row k) [0..<?N]\<rparr>"
  let ?body = "\<lambda>i p. if i < length (parameters self) then
                   (let s = getSamples (parameters self ! i) ?N
                    in if length s = ?N then Inr (set_column p i s) else Inl ValueError)
                 else Inl IndexError"
  have "\<exists>p. fold_err ?body [0..<?d] (zeros ?N ?d) = Inr p \<and> ?I ?d p"
  proof (rule fold_err_upt_inv [where I = ?I])
    have "replicate ?N (replicate ?d (0::real)) = map (?row 0) [0..<?N]"
      by (intro nth_equalityI) auto
    then show "?I 0 (zeros ?N ?d)" by (simp add: zeros_def)
  next
    fix k p
    assume k: "k < ?d" and p: "?I k p"
    from k inv have kp: "k < length (parameters self)" by simp
    then have "parameters self ! k \<in> set (parameters self)" by simp
    then have len: "length (?smp k) = ?N" by (rule samples)
    have upd: "(?row k j)[k := ?smp k ! j] = ?row (Suc k) j" for j
      using k by (intro nth_equalityI) (auto simp: nth_list_update less_Suc_eq)
    have "data (set_column p k (?smp k)) = map (?row (Suc k)) [0..<?N]"
      using p by (simp add: set_column_def map2_upt_nth [OF len] upd)
    with p have "?I (Suc k) (set_column p k (?smp k))" by (simp add: set_column_def)
    with kp len show "\<exists>p'. ?body k p = Inr p' \<and> ?I (Suc k) p'" by (simp add: Let_def)
  qed
  moreover have "?row ?d j = map (\<lambda>i. ?smp i ! j) [0..<?d]" for j
    by (rule map_cong [OF refl]) simp
  moreover have "map (\<lambda>x. binary64_round (binary64_round (1 / real ?N) * x)) (replicate ?N 1)
                   = replicate ?N (7378697629483821 / 2 ^ 67)"
    by (simp only: map_replicate qmc_weight)
  ultimately show ?thesis
    by (auto simp add: qmc_rule_def Let_def)
qed

lemma str_lower_qmc: "str_lower ''qmc'' = ''qmc''"
  by code_simp

lemma str_lower_QMC: "str_lower ''QMC'' = ''qmc''"
  by code_simp

lemma getQuadratureRule_qmc_closed_form:
  assumes inv: "dimensions self = length (parameters self)"
    and sel: "(\<exists>s. options = Some s \<and> str_lower s = ''qmc'')
              \<or> (options = None \<and> 8 < dimensions self)"
    and samples: "\<forall>P \<in> set (parameters self). length (getSamples P 20000) = 20000"
  shows "getQuadratureRule self options =
           Inr (Some (\<lparr>nrows = default_number_of_points, ncols = dimensions self,
                        data = map (\<lambda>j. map (\<lambda>i. getSamples (parameters self ! i)
                                                     default_number_of_points ! j)
                                            [0..<dimensions self])
                                 [0..<default_number_of_points]\<rparr>,
                      replicate default_number_of_points (7378697629483821 / 2 ^ 67)))"
proof -
  have N: "default_number_of_points = 20000" by (simp add: default_number_of_points_def)
  from samples
  have len: "length (getSamples P default_number_of_points) = default_number_of_points"
    if "P \<in> set (parameters self)" for P
    using that by (simp add: N)
  note rule = qmc_rule_closed_form [OF inv len]
  from sel show ?thesis
    by (auto simp add: getQuadratureRule_def rule str_lower_qmc)
qed

text \<open>
  Claim C6, as amended. When the quasi-random rule is selected, by an option that reads
  \<^verbatim>\<open>qmc\<close> in lower case or by default with more than eight dimensions, and every
  parameter's sampler hands over the number of samples it is asked for,
  \<^verbatim>\<open>getQuadratureRule\<close> returns 20000 points, one column for each dimension and column
  \<open>i\<close> being the samples of parameter \<open>i\<close>, and 20000 weights that are all the same
  number: the binary64 number nearest to \<open>1/20000\<close>, which is \<open>7378697629483821 / 2\<^sup>6\<^sup>7\<close>
  and not \<open>1/20000\<close>. Their exact sum is \<open>1 + 221 / 2\<^sup>6\<^sup>2\<close>, not \<open>1\<close>.
\<close>

theorem getQuadratureRule_qmc:
  assumes inv: "dimensions self = length (parameters self)"
    and sel: "(\<exists>s. options = Some s \<and> str_lower s = ''qmc'')
              \<or> (options = None \<and> 8 < dimensions self)"
    and samples: "\<forall>P \<in> set (parameters self). length (getSamples P 20000) = 20000"
  shows "\<exists>p w. getQuadratureRule self options = Inr (Some (p, w))
           \<and> nrows p = 20000 \<and> ncols p = dimensions self \<and> wf_array p
           \<and> (\<forall>i<dimensions self. column p i = Inr (getSamples (parameters self ! i) 20000))
           \<and> length w = 20000
           \<and> (\<forall>x \<in> set w. x = binary64_round (1 / 20000))
           \<and> (\<forall>x \<in> set w. x = 7378697629483821 / 2 ^ 67 \<and> x \<noteq> 1 / 20000)
           \<and> sum_list w = 1 + 221 / 2 ^ 62
           \<and> sum_list w \<noteq> 1"
proof -
  let ?N = default_number_of_points
  let ?p = "\<lparr>nrows = ?N, ncols = dimensions self,
             data = map (\<lambda>j. map (\<lambda>i. getSamples (parameters self ! i) ?N ! j)
                                 [0..<dimensions self]) [0..<?N]\<rparr>"
  let ?w = "replicate ?N ((7378697629483821::real) / 2 ^ 67)"
  have N: "?N = 20000" by (simp add: default_number_of_points_def)
  from samples have len: "length (getSamples P ?N) = ?N" if "P \<in> set (parameters self)" for P
    using that by (simp add: N)
  have "getQuadratureRule self options = Inr (Some (?p, ?w))"
    by (rule getQuadratureRule_qmc_closed_form [OF inv sel samples])
  moreover have "nrows ?p = 20000" "ncols ?p = dimensions self" by (simp_all add: N)
  moreover have "wf_array ?p" by (simp add: wf_array_def list_all_iff)
  moreover have "\<forall>i<dimensions self. column ?p i = Inr (getSamples (parameters self ! i) 20000)"
  proof (intro allI impI)
    fix i assume i: "i < dimensions self"
    with inv have "parameters self ! i \<in> set (parameters self)" by simp
    then have l: "length (getSamples (parameters self ! i) ?N) = ?N" by (rule len)
    have "map (\<lambda>j. getSamples (parameters self ! i) ?N ! j) [0..<?N] = getSamples (parameters self ! i) ?N"
      using l by (intro nth_equalityI) auto
    with i show "column ?p i = Inr (getSamples (parameters self ! i) 20000)"
      by (simp add: column_def comp_def N [symmetric])
  qed
  moreover have "length ?w = 20000" by (simp add: N)
  moreover have "\<forall>x \<in> set ?w. x = binary64_round (1 / 20000)"
    by (simp add: binary64_one_over_N)
  moreover have "\<forall>x \<in> set ?w. x = 7378697629483821 / 2 ^ 67 \<and> x \<noteq> 1 / 20000" by simp
  moreover have s: "sum_list ?w = 1 + 221 / 2 ^ 62" by (simp add: sum_list_replicate N)
  moreover have "sum_list ?w \<noteq> 1" unfolding s by simp
  ultimately show ?thesis by blast
qed

text \<open>The option is read without regard to case; two dimensions give two columns.\<close>

theorem getQuadratureRule_qmc_witness:
  "\<exists>p w. getQuadratureRule (init [uniform_example, uniform_example] total_order_basis)
            (Some ''QMC'') = Inr (Some (p, w))
     \<and> nrows p = 20000 \<and> ncols p = 2 \<and> length w = 20000 \<and> sum_list w = 1 + 221 / 2 ^ 62"
proof -
  let ?self = "init [uniform_example, uniform_example] total_order_basis"
  have "dimensions ?self = length (parameters ?self)"
    "(\<exists>s. Some ''QMC'' = Some s \<and> str_lower s = ''qmc'') \<or> (Some ''QMC'' = None \<and> 8 < dimensions ?self)"
    "\<forall>P \<in> set (parameters ?self). length (getSamples P 20000) = 20000"
    by (simp_all add: str_lower_QMC uniform_example_def)
  from getQuadratureRule_qmc [OF this] show ?thesis by auto
qed

text \<open>
  Claim C6 as it is written fails: the weight that the division computes is not
  \<open>1/20000\<close>, and 20000 of them do not sum to exactly \<open>1\<close>.
\<close>

theorem getQuadratureRule_qmc_counterexample:
  "hd (snd (the (projr (getQuadratureRule
        (init [uniform_example, uniform_example] total_order_basis) (Some ''qmc'')))))
     \<noteq> 1 / 20000
   \<and> sum_list (snd (the (projr (getQuadratureRule
        (init [uniform_example, uniform_example] total_order_basis) (Some ''qmc'')))))
     \<noteq> 1"
proof -
  let ?self = "init [uniform_example, uniform_example] total_order_basis"
  have "dimensions ?self = length (parameters ?self)"
    "(\<exists>s. Some ''qmc'' = Some s \<and> str_lower s = ''qmc'') \<or> (Some ''qmc'' = None \<and> 8 < dimensions ?self)"
    "\<forall>P \<in> set (parameters ?self). length (getSamples P 20000) = 20000"
    by (simp_all add: str_lower_qmc uniform_example_def)
  note eq = getQuadratureRule_qmc_closed_form [OF this]
  have N: "default_number_of_points = 20000" by (simp add: default_number_of_points_def)
  have "sum_list (replicate default_number_of_points ((7378697629483821::real) / 2 ^ 67)) \<noteq> 1"
    by (simp add: sum_list_replicate N)
  moreover have "hd (replicate default_number_of_points ((7378697629483821::real) / 2 ^ 67))
                   \<noteq> 1 / 20000"
    by (simp add: N)
  ultimately show ?thesis unfolding eq by simp
qed

subsection \<open>Cartesian products of lists\<close>

lemma concat_map_concat:
  "concat (map f (concat xss)) = concat (map (\<lambda>xs. concat (map f xs)) xss)"
  by (induction xss) simp_all

lemma concat_concat_map:
  "concat (concat (map (\<lambda>x. map (g x) zs) xs)) = concat (map (\<lambda>x. concat (map (g x) zs)) xs)"
  by (induction xs) simp_all

lemma sum_list_concat: "sum_list (concat xss) = sum_list (map sum_list xss)"
  by (induction xss) simp_all

lemma product_lists_snoc:
  "product_lists (xss @ [ys]) = concat (map (\<lambda>c. map (\<lambda>y. c @ [y]) ys) (product_lists xss))"
proof (induction xss)
  case Nil
  show ?case by (simp add: comp_def)
next
  case (Cons xs xss)
  show ?case
    by (simp add: Cons.IH map_concat comp_def concat_map_concat concat_concat_map)
qed

lemma length_product_lists_prod:
  "length (product_lists xss) = prod_list (map length xss)"
  by (induction xss) (simp_all add: length_concat comp_def sum_list_triv)

lemma concat_map_nth:
  assumes "r < length cs * length ys"
  shows "concat (map (\<lambda>c. map (f c) ys) cs) ! r = f (cs ! (r div length ys)) (ys ! (r mod length ys))"
  using assms
proof (induction cs arbitrary: r)
  case Nil
  then show ?case by simp
next
  case (Cons c cs)
  show ?case
  proof (cases "r < length ys")
    case True
    then show ?thesis by (simp add: nth_append)
  next
    case False
    then have ge: "length ys \<le> r" by simp
    with Cons.prems have "r - length ys < length cs * length ys" by simp
    note IH = Cons.IH [OF this]
    from Cons.prems have pos: "0 < length ys" by (cases "length ys = 0") simp_all
    from pos ge have d: "r div length ys = Suc ((r - length ys) div length ys)"
      by (rule le_div_geq)
    from ge have m: "r mod length ys = (r - length ys) mod length ys"
      by (rule le_mod_geq)
    from False show ?thesis
      by (simp add: nth_append IH d m)
  qed
qed

lemma product_lists_nth:
  assumes "r < prod_list (map length xss)" and "k < length xss"
  shows "product_lists xss ! r ! k
           = xss ! k ! ((r div prod_list (map length (drop (Suc k) xss))) mod length (xss ! k))"
  using assms
proof (induction xss arbitrary: r k rule: rev_induct)
  case Nil
  then show ?case by simp
next
  case (snoc ys xss)
  let ?n = "length ys"
  from snoc.prems(1) have r: "r < length (product_lists xss) * ?n"
    by (simp add: length_product_lists_prod)
  then have pos: "0 < ?n" by (cases "?n = 0") simp_all
  from r have rdiv: "r div ?n < prod_list (map length xss)"
    by (simp add: length_product_lists_prod less_mult_imp_div_less)
  have row: "product_lists (xss @ [ys]) ! r = product_lists xss ! (r div ?n) @ [ys ! (r mod ?n)]"
    unfolding product_lists_snoc by (rule concat_map_nth [OF r])
  have len: "length (product_lists xss ! (r div ?n)) = length xss"
  proof -
    from rdiv have "product_lists xss ! (r div ?n) \<in> set (product_lists xss)"
      by (simp add: length_product_lists_prod)
    then show ?thesis by (simp add: in_set_product_lists_length)
  qed
  show ?case
  proof (cases "k < length xss")
    case True
    from snoc.IH [OF rdiv True] True len show ?thesis
      by (simp add: row nth_append div_mult2_eq mult.commute)
  next
    case False
    with snoc.prems(2) have "k = length xss" by simp
    then show ?thesis by (simp add: row nth_append len)
  qed
qed

lemma sum_list_product_lists:
  "sum_list (map prod_list (product_lists (W :: real list list))) = prod_list (map sum_list W)"
proof (induction W)
  case Nil
  show ?case by simp
next
  case (Cons w W)
  have "sum_list (map prod_list (concat (map (\<lambda>x. map ((#) x) (product_lists W)) w)))
          = sum_list (map (\<lambda>x. x * sum_list (map prod_list (product_lists W))) w)"
    by (simp add: map_concat comp_def sum_list_concat sum_list_const_mult)
  also have "\<dots> = sum_list w * sum_list (map prod_list (product_lists W))"
    by (simp add: sum_list_mult_const)
  finally show ?case by (simp add: Cons.IH)
qed

lemma kron_vec_product_lists:
  "kron_vec (map prod_list (product_lists W)) w = map prod_list (product_lists (W @ [w]))"
  by (simp add: kron_vec_def product_lists_snoc map_concat comp_def)

lemma foldl_kron_vec:
  "foldl kron_vec [1] W = map prod_list (product_lists W)"
proof (induction W rule: rev_induct)
  case Nil
  show ?case by simp
next
  case (snoc w W)
  then show ?case by (simp add: kron_vec_product_lists)
qed

lemma map2_append_rows:
  assumes "length ys = n"
  shows "map2 (@) (concat (map (\<lambda>ra. replicate n ra) rows))
                  (concat (replicate (length rows) (map (\<lambda>x. [x]) ys)))
           = concat (map (\<lambda>ra. map (\<lambda>x. ra @ [x]) ys) rows)"
proof (induction rows)
  case Nil
  show ?case by simp
next
  case (Cons ra rows)
  have "map2 (@) (replicate n ra) (map (\<lambda>x. [x]) ys) = map (\<lambda>x. ra @ [x]) ys"
    using assms by (intro nth_equalityI) auto
  with Cons assms show ?case by (simp add: zip_append)
qed

subsection \<open>getTensorQuadratureRule\<close>

lemma kron_vec_one_right: "kron_vec ra [1] = ra"
  by (simp add: kron_vec_def)

lemma kron_vec_one_left: "kron_vec [1] b = b"
proof -
  have "map ((*) 1) b = b" by (rule map_idI) simp
  then show ?thesis by (simp add: kron_vec_def)
qed

lemma kron_ones_right:
  "kron A (ones n (Suc 0)) =
     \<lparr>nrows = nrows A * n, ncols = ncols A, data = concat (map (\<lambda>ra. replicate n ra) (data A))\<rparr>"
  by (simp add: kron_def ones_def kron_vec_one_right)

lemma kron_ones_left:
  "kron (ones N (Suc 0)) (column_vector xs) =
     \<lparr>nrows = N * length xs, ncols = Suc 0, data = concat (replicate N (map (\<lambda>x. [x]) xs))\<rparr>"
  by (simp add: kron_def ones_def column_vector_def kron_vec_one_left comp_def)

lemma tensor_loop:
  assumes inv: "dimensions self = length (parameters self)"
    and len: "dimensions self \<le> length ords"
  shows "fold_err (tensor_step self ords) [0..<dimensions self]
           (\<lparr>nrows = 1, ncols = 1, data = [[1]]\<rparr>, [1]) =
         Inr (\<lparr>nrows = length (product_lists
                   (map (\<lambda>u. fst (localQuadrature (parameters self ! u) (ords ! u + 1)))
                      [0..<dimensions self])),
               ncols = Suc (dimensions self),
               data = map ((#) 1) (product_lists
                   (map (\<lambda>u. fst (localQuadrature (parameters self ! u) (ords ! u + 1)))
                      [0..<dimensions self]))\<rparr>,
              map prod_list (product_lists
                   (map (\<lambda>u. snd (localQuadrature (parameters self ! u) (ords ! u + 1)))
                      [0..<dimensions self])))"
proof -
  let ?Q = "\<lambda>u. localQuadrature (parameters self ! u) (Suc (ords ! u))"
  let ?PL = "\<lambda>k. product_lists (map (\<lambda>u. fst (?Q u)) [0..<k])"
  let ?PW = "\<lambda>k. product_lists (map (\<lambda>u. snd (?Q u)) [0..<k])"
  let ?st = "\<lambda>k. (\<lparr>nrows = length (?PL k), ncols = Suc k, data = map ((#) 1) (?PL k)\<rparr>,
                   map prod_list (?PW k))"
  have "\<exists>s. fold_err (tensor_step self ords) [0..<dimensions self]
               (\<lparr>nrows = 1, ncols = 1, data = [[1]]\<rparr>, [1]) = Inr s \<and> s = ?st (dimensions self)"
  proof (rule fold_err_upt_inv [where I = "\<lambda>k s. s = ?st k"])
    show "(\<lparr>nrows = 1, ncols = 1, data = [[1::real]]\<rparr>, [1::real]) = ?st 0" by simp
  next
    fix k s
    assume k: "k < dimensions self" and s: "s = ?st k"
    obtain lp lw where Q: "localQuadrature (parameters self ! k) (Suc (ords ! k)) = (lp, lw)"
      by (cases "localQuadrature (parameters self ! k) (Suc (ords ! k))")
    from k inv len have kp: "k < length (parameters self)" and ko: "k < length ords" by simp_all
    have PL: "?PL (Suc k) = concat (map (\<lambda>c. map (\<lambda>y. c @ [y]) lp) (?PL k))"
      by (simp add: product_lists_snoc Q)
    have PW: "map prod_list (?PW (Suc k)) = kron_vec (map prod_list (?PW k)) lw"
      by (simp add: kron_vec_product_lists Q)
    have rows: "map2 (@) (concat (map (\<lambda>ra. replicate (length lp) ra) (map ((#) 1) (?PL k))))
                  (concat (replicate (length (?PL k)) (map (\<lambda>x. [x]) lp)))
                = map ((#) 1) (?PL (Suc k))"
    proof -
      have "map2 (@) (concat (map (\<lambda>ra. replicate (length lp) ra) (map ((#) 1) (?PL k))))
                  (concat (replicate (length (?PL k)) (map (\<lambda>x. [x]) lp)))
            = concat (map (\<lambda>ra. map (\<lambda>x. ra @ [x]) lp) (map ((#) 1) (?PL k)))"
        using map2_append_rows [of lp "length lp" "map ((#) 1) (?PL k)"] by simp
      also have "\<dots> = map ((#) 1) (concat (map (\<lambda>c. map (\<lambda>y. c @ [y]) lp) (?PL k)))"
        by (simp add: map_concat comp_def)
      also have "\<dots> = map ((#) 1) (?PL (Suc k))"
        by (simp only: PL)
      finally show ?thesis .
    qed
    have n: "length (?PL (Suc k)) = length (?PL k) * length lp"
      by (simp add: length_product_lists_prod Q)
    have "tensor_step self ords k (?st k) = Inr (?st (Suc k))"
      unfolding tensor_step_def using rows n PW
      by (simp add: kp ko Q Let_def kron_ones_right kron_ones_left concatenate_axis1_def
          del: upt_Suc product_lists.simps)
    with s show "\<exists>s'. tensor_step self ords k s = Inr s' \<and> s' = ?st (Suc k)" by simp
  qed
  then show ?thesis by simp
qed

lemma getTensorQuadratureRule_closed_form:
  assumes inv: "dimensions self = length (parameters self)"
    and d: "1 \<le> dimensions self"
    and len: "dimensions self \<le> length ords"
    and arg: "ords = (case ords_arg of None \<Rightarrow> Poly.orders self | Some os \<Rightarrow> os)"
  shows "getTensorQuadratureRule self ords_arg =
         Inr (\<lparr>nrows = length (product_lists
                   (map (\<lambda>u. fst (localQuadrature (parameters self ! u) (ords ! u + 1)))
                      [0..<dimensions self])),
               ncols = dimensions self,
               data = product_lists
                   (map (\<lambda>u. fst (localQuadrature (parameters self ! u) (ords ! u + 1)))
                      [0..<dimensions self])\<rparr>,
              map prod_list (product_lists
                   (map (\<lambda>u. snd (localQuadrature (parameters self ! u) (ords ! u + 1)))
                      [0..<dimensions self])))"
proof -
  note loop = tensor_loop [OF inv len]
  from d have "dimensions self \<noteq> 0" by simp
  then show ?thesis
    unfolding getTensorQuadratureRule_def arg [symmetric] Let_def loop
    by (simp add: drop_first_column_def comp_def del: upt_Suc product_lists.simps)
qed

lemma prod_list_map_one: "prod_list (map (\<lambda>u. 1::real) xs) = 1"
  by (induction xs) simp_all

text \<open>
  Claim C3. For a core object with \<open>d \<ge> 1\<close> parameters and an order for each dimension,
  whose local rules have as many nodes as weights, \<^verbatim>\<open>getTensorQuadratureRule\<close> returns
  the iterated Kronecker product of the weight vectors, whose entries are the products of
  one weight from each dimension and whose length is the product of the point counts;
  and a point matrix with one row for each combination of nodes, one column for each
  dimension and as many rows as there are weights. Row \<open>r\<close> holds in column \<open>k\<close> the node
  of dimension \<open>k\<close> with index \<open>r\<close> divided by the product of the later point counts,
  modulo the point count of dimension \<open>k\<close>: the last column runs fastest, every earlier
  one slower.
\<close>

theorem getTensorQuadratureRule_tensor_product:
  assumes inv: "dimensions self = length (parameters self)"
    and d: "1 \<le> dimensions self"
    and arg: "ords = (case ords_arg of None \<Rightarrow> Poly.orders self | Some os \<Rightarrow> os)"
    and len: "dimensions self \<le> length ords"
    and rules: "\<forall>u<dimensions self.
                  length (fst (localQuadrature (parameters self ! u) (ords ! u + 1)))
                    = length (snd (localQuadrature (parameters self ! u) (ords ! u + 1)))"
  shows "\<exists>points weights.
           getTensorQuadratureRule self ords_arg = Inr (points, weights)
           \<and> weights = foldl kron_vec [1]
                 (map (\<lambda>u. snd (localQuadrature (parameters self ! u) (ords ! u + 1)))
                    [0..<dimensions self])
           \<and> weights = map prod_list (product_lists
                 (map (\<lambda>u. snd (localQuadrature (parameters self ! u) (ords ! u + 1)))
                    [0..<dimensions self]))
           \<and> length weights = prod_list
                 (map (\<lambda>u. length (fst (localQuadrature (parameters self ! u) (ords ! u + 1))))
                    [0..<dimensions self])
           \<and> wf_array points \<and> ncols points = dimensions self
           \<and> nrows points = length weights
           \<and> data points = product_lists
                 (map (\<lambda>u. fst (localQuadrature (parameters self ! u) (ords ! u + 1)))
                    [0..<dimensions self])
           \<and> (\<forall>r<nrows points. \<forall>k<dimensions self.
                 data points ! r ! k =
                   fst (localQuadrature (parameters self ! k) (ords ! k + 1)) !
                     ((r div prod_list
                         (map (\<lambda>u. length (fst (localQuadrature (parameters self ! u) (ords ! u + 1))))
                            [Suc k..<dimensions self]))
                      mod length (fst (localQuadrature (parameters self ! k) (ords ! k + 1)))))"
proof -
  let ?d = "dimensions self"
  let ?Q = "\<lambda>u. localQuadrature (parameters self ! u) (ords ! u + 1)"
  let ?N = "map (\<lambda>u. fst (?Q u)) [0..<?d]"
  let ?W = "map (\<lambda>u. snd (?Q u)) [0..<?d]"
  let ?points = "\<lparr>nrows = length (product_lists ?N), ncols = ?d, data = product_lists ?N\<rparr>"
  let ?weights = "map prod_list (product_lists ?W)"
  have eq: "getTensorQuadratureRule self ords_arg = Inr (?points, ?weights)"
    by (rule getTensorQuadratureRule_closed_form [OF inv d len arg])
  have kron: "?weights = foldl kron_vec [1] ?W"
    by (simp only: foldl_kron_vec)
  from rules have same: "map (\<lambda>u. length (snd (?Q u))) [0..<?d] = map (\<lambda>u. length (fst (?Q u))) [0..<?d]"
    by simp
  have "length ?weights = prod_list (map (\<lambda>u. length (snd (?Q u))) [0..<?d])"
    by (simp add: length_product_lists_prod comp_def)
  also have "\<dots> = prod_list (map (\<lambda>u. length (fst (?Q u))) [0..<?d])"
    by (simp only: same)
  finally have lw: "length ?weights = prod_list (map (\<lambda>u. length (fst (?Q u))) [0..<?d])" .
  have lp: "length (product_lists ?N) = prod_list (map (\<lambda>u. length (fst (?Q u))) [0..<?d])"
    by (simp add: length_product_lists_prod comp_def)
  have wf: "wf_array ?points"
    by (simp add: wf_array_def list_all_iff in_set_product_lists_length)
  have nth: "\<forall>r<nrows ?points. \<forall>k<?d.
                 data ?points ! r ! k =
                   fst (?Q k) ! ((r div prod_list (map (\<lambda>u. length (fst (?Q u))) [Suc k..<?d]))
                      mod length (fst (?Q k)))"
  proof (intro allI impI)
    fix r k
    assume r: "r < nrows ?points" and k: "k < ?d"
    from r have r': "r < prod_list (map length ?N)" by (simp add: length_product_lists_prod)
    from k have k': "k < length ?N" by simp
    from product_lists_nth [OF r' k'] k
    show "data ?points ! r ! k =
            fst (?Q k) ! ((r div prod_list (map (\<lambda>u. length (fst (?Q u))) [Suc k..<?d]))
               mod length (fst (?Q k)))"
      by (simp add: drop_map comp_def del: upt_Suc)
  qed
  have "nrows ?points = length ?weights" "ncols ?points = ?d"
    "data ?points = product_lists ?N"
    using lw lp by simp_all
  with eq kron lw wf nth show ?thesis by blast
qed

lemma example_rule:
  "localQuadrature uniform_example n = (map real [0..<n], replicate n (1 / real n))"
  by (simp add: uniform_example_def)

lemma example_order: "order uniform_example = 2"
  by (simp add: uniform_example_def)

text \<open>
  Orders 1 and 2 on two dimensions: two nodes times three nodes, the second column
  running fastest, and six weights of \<open>1/6\<close>.
\<close>

theorem getTensorQuadratureRule_tensor_product_witness:
  "getTensorQuadratureRule (init [uniform_example, uniform_example] total_order_basis)
     (Some [1, 2]) =
   Inr (\<lparr>nrows = 6, ncols = 2,
         data = [[0, 0], [0, 1], [0, 2], [1, 0], [1, 1], [1, 2]]\<rparr>,
        [1 / 6, 1 / 6, 1 / 6, 1 / 6, 1 / 6, 1 / 6])"
proof -
  let ?self = "init [uniform_example, uniform_example] total_order_basis"
  let ?ords = "[1, 2] :: nat list"
  have h: "dimensions ?self = length (parameters ?self)" "1 \<le> dimensions ?self"
    "?ords = (case Some ?ords of None \<Rightarrow> Poly.orders ?self | Some os \<Rightarrow> os)"
    "dimensions ?self \<le> length ?ords"
    "\<forall>u<dimensions ?self.
        length (fst (localQuadrature (parameters ?self ! u) (?ords ! u + 1)))
          = length (snd (localQuadrature (parameters ?self ! u) (?ords ! u + 1)))"
    by (simp_all add: example_rule less_Suc_eq numeral_2_eq_2)
  from getTensorQuadratureRule_tensor_product [OF h] obtain points weights where
    eq: "getTensorQuadratureRule ?self (Some ?ords) = Inr (points, weights)"
    and w: "weights = map prod_list (product_lists
                 (map (\<lambda>u. snd (localQuadrature (parameters ?self ! u) (?ords ! u + 1)))
                    [0..<dimensions ?self]))"
    and c: "ncols points = dimensions ?self"
    and r: "nrows points = length weights"
    and p: "data points = product_lists
                 (map (\<lambda>u. fst (localQuadrature (parameters ?self ! u) (?ords ! u + 1)))
                    [0..<dimensions ?self])"
    by blast
  have w': "weights = [1 / 6, 1 / 6, 1 / 6, 1 / 6, 1 / 6, 1 / 6]"
    unfolding w by (simp add: example_rule upt_rec [of _ "numeral n" for n] numeral_2_eq_2 numeral_3_eq_3)
  have p': "data points = [[0, 0], [0, 1], [0, 2], [1, 0], [1, 1], [1, 2]]"
    unfolding p by (simp add: example_rule upt_rec [of _ "numeral n" for n] numeral_2_eq_2 numeral_3_eq_3)
  from c have c': "ncols points = 2" by simp
  from r w' have r': "nrows points = 6" by simp
  from p' c' r' have "points = \<lparr>nrows = 6, ncols = 2,
         data = [[0, 0], [0, 1], [0, 2], [1, 0], [1, 1], [1, 2]]\<rparr>"
    by (cases points) simp
  with eq w' show ?thesis by simp
qed

text \<open>
  Claim C4, as amended. For a core object with at least one parameter and an order for
  each dimension, if the weights of every local rule sum to \<open>1\<close>, then
  \<^verbatim>\<open>getTensorQuadratureRule\<close> returns a weight vector that sums to \<open>1\<close>.
\<close>

theorem getTensorQuadratureRule_weights_sum:
  assumes inv: "dimensions self = length (parameters self)"
    and d: "1 \<le> dimensions self"
    and arg: "ords = (case ords_arg of None \<Rightarrow> Poly.orders self | Some os \<Rightarrow> os)"
    and len: "dimensions self \<le> length ords"
    and sums: "\<forall>u<dimensions self.
                 sum_list (snd (localQuadrature (parameters self ! u) (ords ! u + 1))) = 1"
  shows "\<exists>points weights.
           getTensorQuadratureRule self ords_arg = Inr (points, weights) \<and> sum_list weights = 1"
proof -
  let ?d = "dimensions self"
  let ?Q = "\<lambda>u. localQuadrature (parameters self ! u) (ords ! u + 1)"
  let ?W = "map (\<lambda>u. snd (?Q u)) [0..<?d]"
  from sums have one: "map sum_list ?W = map (\<lambda>u. 1) [0..<?d]" by simp
  have "sum_list (map prod_list (product_lists ?W)) = prod_list (map sum_list ?W)"
    by (rule sum_list_product_lists)
  also have "\<dots> = 1" unfolding one by (rule prod_list_map_one)
  finally have "sum_list (map prod_list (product_lists ?W)) = 1" .
  with getTensorQuadratureRule_closed_form [OF inv d len arg] show ?thesis by blast
qed

text \<open>The default orders of the two-parameter object: nine weights of \<open>1/9\<close>.\<close>

theorem getTensorQuadratureRule_weights_sum_witness:
  "\<exists>points weights.
     getTensorQuadratureRule (init [uniform_example, uniform_example] total_order_basis) None
       = Inr (points, weights) \<and> sum_list weights = 1"
proof -
  let ?self = "init [uniform_example, uniform_example] total_order_basis"
  let ?ords = "Poly.orders ?self"
  have h: "dimensions ?self = length (parameters ?self)" "1 \<le> dimensions ?self"
    "?ords = (case None of None \<Rightarrow> Poly.orders ?self | Some os \<Rightarrow> os)"
    "dimensions ?self \<le> length ?ords"
    "\<forall>u<dimensions ?self.
        sum_list (snd (localQuadrature (parameters ?self ! u) (?ords ! u + 1))) = 1"
    by (simp_all add: example_rule example_order init_orders sum_list_replicate less_Suc_eq
        numeral_2_eq_2)
  from getTensorQuadratureRule_weights_sum [OF h] show ?thesis .
qed

text \<open>
  Claim C4 as it is written fails without a dimension: the loop does not run, \<^verbatim>\<open>pp\<close> is
  still the list \<^verbatim>\<open>[1.0]\<close>, and slicing it raises \<^verbatim>\<open>TypeError\<close>, so that no weight
  vector is returned.
\<close>

theorem getTensorQuadratureRule_no_dimension_counterexample:
  "getTensorQuadratureRule (init [] total_order_basis) None = Inl TypeError"
  by (simp add: getTensorQuadratureRule_def)

subsection \<open>clone and unfitted objects\<close>

lemma setOrders_call [simp]: "setOrders (call_setOrders b os) = setOrders b"
  by (simp add: call_setOrders_def split: prod.splits)

lemma setOrders_init [simp]: "setOrders (basis (init ps b)) = setOrders b"
  by (simp add: basis_of_init)








end
